theory Spec2Isabelle
  imports Complex_Main "HOL-Library.Char_ord"
begin

section \<open>Strings and JSON values\<close>

text \<open>\<^verbatim>\<open>str.lower()\<close> and \<^verbatim>\<open>str.capitalize()\<close> on the ASCII range.\<close>

definition lower_char :: "char \<Rightarrow> char" where
  "lower_char c =
     (if CHR ''A'' \<le> c \<and> c \<le> CHR ''Z'' then char_of (of_char c + (32::nat)) else c)"

definition upper_char :: "char \<Rightarrow> char" where
  "upper_char c =
     (if CHR ''a'' \<le> c \<and> c \<le> CHR ''z'' then char_of (of_char c - (32::nat)) else c)"

definition lower :: "string \<Rightarrow> string" where
  "lower s = map lower_char s"

fun capitalize :: "string \<Rightarrow> string" where
  "capitalize [] = []"
| "capitalize (c # cs) = upper_char c # map lower_char cs"

text \<open>
  The values an alert or a broker reply holds in its fields: JSON atoms, numbers split
  into Python's \<open>int\<close> and \<open>float\<close> (a finite float is the rational it denotes; the code
  only copies and compares prices). A dict is the list of its items.
\<close>

datatype jval = JNull | JBool bool | JInt int | JFloat rat | JStr string

type_synonym obj = "(string \<times> jval) list"

definition dict_get :: "obj \<Rightarrow> string \<Rightarrow> jval" where
  "dict_get d k = (case map_of d k of None \<Rightarrow> JNull | Some v \<Rightarrow> v)"

definition has_key :: "obj \<Rightarrow> string \<Rightarrow> bool" where
  "has_key d k = (map_of d k \<noteq> None)"

text \<open>Truth value of a field, as \<^verbatim>\<open>if x:\<close> and \<^verbatim>\<open>not x\<close> read it.\<close>

fun truthy :: "jval \<Rightarrow> bool" where
  "truthy JNull = False"
| "truthy (JBool b) = b"
| "truthy (JInt i) = (i \<noteq> 0)"
| "truthy (JFloat f) = (f \<noteq> 0)"
| "truthy (JStr s) = (s \<noteq> [])"

text \<open>\<^verbatim>\<open>int(s)\<close> for a string: surrounding blanks, a sign, decimal digits with single
  underscores between them; \<open>None\<close> stands for the \<open>ValueError\<close>.\<close>

definition is_digit :: "char \<Rightarrow> bool" where
  "is_digit c = (CHR ''0'' \<le> c \<and> c \<le> CHR ''9'')"

definition is_space :: "char \<Rightarrow> bool" where
  "is_space c = (c = CHR '' '' \<or> (CHR 0x09 \<le> c \<and> c \<le> CHR 0x0D))"

fun digits_ok :: "string \<Rightarrow> bool" where
  "digits_ok [] = False"
| "digits_ok [c] = is_digit c"
| "digits_ok (c # d # cs) =
     (is_digit c \<and> (if d = CHR ''_'' then digits_ok cs else digits_ok (d # cs)))"

definition digits_value :: "string \<Rightarrow> int" where
  "digits_value cs =
     foldl (\<lambda>n c. 10 * n + (int (of_char c) - 48)) 0 (filter is_digit cs)"

definition strip :: "string \<Rightarrow> string" where
  "strip s = rev (dropWhile is_space (rev (dropWhile is_space s)))"

definition int_of_str :: "string \<Rightarrow> int option" where
  "int_of_str s =
     (case strip s of
        [] \<Rightarrow> None
      | c # cs \<Rightarrow>
          if c = CHR ''-'' then (if digits_ok cs then Some (- digits_value cs) else None)
          else if c = CHR ''+'' then (if digits_ok cs then Some (digits_value cs) else None)
          else if digits_ok (c # cs) then Some (digits_value (c # cs)) else None)"

section \<open>Deduplication guard (main.py)\<close>

text \<open>
  The names that the import statements of main.py bind at module level (lines 1-13 and
  434; \<^verbatim>\<open>test_manager\<close> only when its module is found). The module assigns no other
  library name, so a library name read at run time that is not in this list raises
  \<^verbatim>\<open>NameError\<close>: \<^verbatim>\<open>hashlib\<close> and \<^verbatim>\<open>httpx\<close> are read and not bound.
\<close>

datatype name_error = NameError string

definition imported :: "string list" where
  "imported =
     [''os'', ''logging'', ''json'', ''asyncio'', ''traceback'', ''time'', ''datetime'',
      ''timedelta'', ''FastAPI'', ''Request'', ''HTTPException'', ''TradovateClient'',
      ''test_manager'', ''Query'']"

definition global_name :: "string \<Rightarrow> name_error + unit" where
  "global_name n = (if n \<in> set imported then Inr () else Inl (NameError n))"

record 'h alert_record =
  direction :: string
  timestamp :: int
  alert_hash :: 'h

type_synonym 'h alert_table = "string \<rightharpoonup> 'h alert_record"

definition DUPLICATE_THRESHOLD_SECONDS :: int where
  "DUPLICATE_THRESHOLD_SECONDS = 30"

definition essential_fields :: "obj \<Rightarrow> obj" where
  "essential_fields data =
     [(''symbol'', dict_get data ''symbol''),
      (''action'', dict_get data ''action''),
      (''PRICE'', dict_get data ''PRICE''),
      (''T1'', dict_get data ''T1''),
      (''STOP'', dict_get data ''STOP'')]"

text \<open>
  \<^verbatim>\<open>hash_alert\<close> (lines 191-202) builds the dict of the five fields and its JSON text,
  and then reads the name \<^verbatim>\<open>hashlib\<close>. What \<^verbatim>\<open>sha256\<close> of the text would be is a
  parameter, \<open>digest\<close>, which is applied only where the name is bound.
\<close>

definition hash_alert :: "(obj \<Rightarrow> 'h) \<Rightarrow> obj \<Rightarrow> name_error + 'h" where
  "hash_alert digest data =
     (let essential = essential_fields data
      in case global_name ''hashlib'' of
           Inl err \<Rightarrow> Inl err
         | Inr _ \<Rightarrow> Inr (digest essential))"

text \<open>
  \<^verbatim>\<open>is_duplicate_alert\<close> (lines 205-242) calls \<^verbatim>\<open>hash_alert\<close> before it reads or
  writes \<^verbatim>\<open>last_alert\<close>; an exception leaves the table as it was. Times are in
  microseconds.
\<close>

definition is_duplicate_alert ::
  "(obj \<Rightarrow> 'h) \<Rightarrow> int \<Rightarrow> 'h alert_table \<Rightarrow>
     string \<Rightarrow> string \<Rightarrow> obj \<Rightarrow> (name_error + bool) \<times> 'h alert_table" where
  "is_duplicate_alert digest current_time last_alert symbol action data =
     (case hash_alert digest data of
        Inl err \<Rightarrow> (Inl err, last_alert)
      | Inr h \<Rightarrow>
          let accepted = last_alert(symbol \<mapsto>
                \<lparr>direction = lower action, timestamp = current_time, alert_hash = h\<rparr>)
          in (case last_alert symbol of
                None \<Rightarrow> (Inr False, accepted)
              | Some last_alert_data \<Rightarrow>
                  if alert_hash last_alert_data = h \<and>
                     current_time - timestamp last_alert_data
                       < DUPLICATE_THRESHOLD_SECONDS * 1000000
                  then (Inr True, last_alert)
                  else (Inr False, accepted)))"

text \<open>A sequence of calls of the guard, as test\_automated\_trading.py makes them.\<close>

record arrival =
  arrived_at :: int
  arg_symbol :: string
  arg_action :: string
  payload :: "obj"

fun guard_run ::
  "(obj \<Rightarrow> 'h) \<Rightarrow> 'h alert_table \<Rightarrow> arrival list \<Rightarrow>
     (name_error + bool) list \<times> 'h alert_table" where
  "guard_run digest t [] = ([], t)"
| "guard_run digest t (a # as) =
     (case is_duplicate_alert digest (arrived_at a) t (arg_symbol a) (arg_action a) (payload a) of
        (d, t') \<Rightarrow> (case guard_run digest t' as of (ds, t'') \<Rightarrow> (d # ds, t'')))"

definition buy_alert :: obj where
  "buy_alert = [(''symbol'', JStr ''NQM5''), (''action'', JStr ''Buy''),
     (''PRICE'', JFloat 18500), (''T1'', JFloat 18550), (''STOP'', JFloat 18450)]"

definition sell_alert :: obj where
  "sell_alert = [(''symbol'', JStr ''NQM5''), (''action'', JStr ''Sell''),
     (''PRICE'', JFloat 18500), (''T1'', JFloat 18550), (''STOP'', JFloat 18450)]"

definition arrive :: "int \<Rightarrow> string \<Rightarrow> obj \<Rightarrow> arrival" where
  "arrive now act d =
     \<lparr>arrived_at = now, arg_symbol = ''NQM5'', arg_action = act, payload = d\<rparr>"

lemma hashlib_unbound: "global_name ''hashlib'' = Inl (NameError ''hashlib'')"
  by (simp add: global_name_def imported_def)

lemma hash_alert_raises: "hash_alert digest data = Inl (NameError ''hashlib'')"
  by (simp add: hash_alert_def hashlib_unbound)

lemma is_duplicate_alert_raises:
  "is_duplicate_alert digest current_time last_alert symbol action data
     = (Inl (NameError ''hashlib''), last_alert)"
  by (simp add: is_duplicate_alert_def hash_alert_raises)

lemma guard_run_raises:
  "guard_run digest t xs = (replicate (length xs) (Inl (NameError ''hashlib'')), t)"
  by (induction xs arbitrary: t) (simp_all add: is_duplicate_alert_raises)

text \<open>
  Claim C1 fails on main.py. The guard never returns a decision: every call raises
  \<^verbatim>\<open>NameError\<close> for \<^verbatim>\<open>hashlib\<close> and leaves the table unchanged, whatever \<^verbatim>\<open>sha256\<close>
  would compute. In the run of the test file, a Buy alert followed 5 seconds later by the
  identical Buy alert, the second alert is not suppressed, and nothing is recorded for
  the symbol; a Buy followed by a Sell is not admitted either.
\<close>

theorem dedup_guard_never_decides:
  "fst (is_duplicate_alert digest current_time last_alert symbol action data)
      = Inl (NameError ''hashlib'')
   \<and> snd (is_duplicate_alert digest current_time last_alert symbol action data) = last_alert
   \<and> guard_run digest Map.empty [arrive 0 ''Buy'' buy_alert, arrive 5000000 ''Buy'' buy_alert]
      = ([Inl (NameError ''hashlib''), Inl (NameError ''hashlib'')], Map.empty)
   \<and> guard_run digest Map.empty [arrive 0 ''Buy'' buy_alert, arrive 5000000 ''Sell'' sell_alert]
      = ([Inl (NameError ''hashlib''), Inl (NameError ''hashlib'')], Map.empty)"
  by (simp add: is_duplicate_alert_raises guard_run_raises)

text \<open>
  Claim C10 fails on main.py. \<^verbatim>\<open>hash_alert\<close> returns no hash: for two payloads that
  agree on symbol, action, PRICE, T1 and STOP and differ in \<^verbatim>\<open>config_id\<close>, as for every
  payload, the call raises \<^verbatim>\<open>NameError\<close>, and \<^verbatim>\<open>is_duplicate_alert\<close> returns no decision
  for either.
\<close>

theorem fingerprint_is_never_computed:
  "hash_alert digest ((''config_id'', JStr ''A'') # buy_alert) = Inl (NameError ''hashlib'')
   \<and> hash_alert digest ((''config_id'', JStr ''B'') # buy_alert) = Inl (NameError ''hashlib'')
   \<and> (\<forall>data. \<not> (\<exists>h. hash_alert digest data = Inr h))
   \<and> (\<forall>data now t s act. \<not> (\<exists>d. fst (is_duplicate_alert digest now t s act data) = Inr d))"
  by (simp add: hash_alert_raises is_duplicate_alert_raises)


section \<open>Broker calls, time and the trace of effects\<close>

text \<open>
  The requests the code sends, by endpoint:
  \<open>Auth_token_request\<close> POST /auth/accesstokenrequest, \<open>Account_list\<close> GET /account/list,
  \<open>Place_order\<close> POST /order/placeorder, \<open>Place_oso\<close> POST /order/placeOSO (the order
  and its \<open>bracket1\<close>),
  \<open>Cancel_order_request\<close> POST /order/cancelorder (the adapter), \<open>Order_cancel\<close> POST
  /order/cancel/{id} (the handlers), \<open>Cancel_all_orders\<close> POST /order/cancelallorders,
  \<open>Order_list\<close> GET /order/list, \<open>Order_item\<close> GET /order/{id}, \<open>Position_list\<close> GET
  /position/list, \<open>Close_position\<close> POST /position/closeposition.
\<close>

datatype request =
    Auth_token_request
  | Account_list
  | Place_order obj
  | Place_oso obj obj
  | Cancel_order_request jval
  | Order_cancel jval
  | Cancel_all_orders jval
  | Order_list
  | Order_item jval
  | Position_list
  | Close_position jval

text \<open>
  What \<^verbatim>\<open>response.json()\<close> gives: an object, an array of objects, or no JSON at all
  (the call raises). A reply is either an exception of the HTTP client (\<open>Raised\<close>: no
  response arrived) or a response with its status code, its Retry-After header and its
  body.
\<close>

datatype body = Obj obj | Objs "obj list" | Not_json

datatype reply = Raised | Reply nat "string option" body

text \<open>
  The broker is an oracle: the reply to the \<open>k\<close>-th request of a run, and the
  milliseconds the exchange takes.
\<close>

type_synonym broker = "nat \<Rightarrow> request \<Rightarrow> reply \<times> nat"

datatype label = ENTRY | TP1 | STOP

datatype log_entry =
    Max_retries_reached
  | Rate_limited int
  | Cancel_failed jval
  | Still_open "jval list" "jval list"
  | Timeout_waiting_for_orders jval
  | Monitoring_timeout
  | No_active_orders
  | Position_not_flat
  | Open_orders_remain
  | No_take_profit
  | No_entry_price
  | No_stop_price
  | Place_failed label
  | Trade_completed string
  | Cancel_not_confirmed label nat
  | Monitor_error

datatype event = Sent request | Slept nat | Logged log_entry | Observed label jval

record io =
  now :: nat
  calls :: nat
  events :: "event list"

definition send :: "broker \<Rightarrow> request \<Rightarrow> io \<Rightarrow> reply \<times> io" where
  "send B req s =
     (case B (calls s) req of
        (r, ms) \<Rightarrow>
          (r, s\<lparr>now := now s + ms, calls := Suc (calls s), events := events s @ [Sent req]\<rparr>))"

text \<open>\<^verbatim>\<open>asyncio.sleep\<close>: the clock moves by the delay; a delay below zero does not wait.\<close>

definition sleep_ms :: "nat \<Rightarrow> io \<Rightarrow> io" where
  "sleep_ms d s = s\<lparr>now := now s + d, events := events s @ [Slept d]\<rparr>"

definition sleep_seconds :: "int \<Rightarrow> io \<Rightarrow> io" where
  "sleep_seconds n s = sleep_ms (nat (n * 1000)) s"

definition write_log :: "log_entry \<Rightarrow> io \<Rightarrow> io" where
  "write_log e s = s\<lparr>events := events s @ [Logged e]\<rparr>"

text \<open>\<^verbatim>\<open>raise_for_status()\<close> raises \<open>HTTPStatusError\<close> for every status outside 2xx.\<close>

definition raises_for_status :: "nat \<Rightarrow> bool" where
  "raises_for_status code = (\<not> (200 \<le> code \<and> code < 300))"

datatype exn = HTTPException nat string | Error string

section \<open>Broker adapter (tradovate\_api.py)\<close>

record client =
  access_token :: jval
  account_id :: jval
  account_spec :: jval

record env =
  TRADOVATE_ACCOUNT_ID :: "string option"
  TRADOVATE_ACCOUNT_SPEC :: "string option"

text \<open>\<^verbatim>\<open>int(x)\<close> for a field value; \<open>None\<close> is the exception.\<close>

fun int_of_jval :: "jval \<Rightarrow> int option" where
  "int_of_jval JNull = None"
| "int_of_jval (JBool b) = Some (if b then 1 else 0)"
| "int_of_jval (JInt i) = Some i"
| "int_of_jval (JFloat f) = Some (if 0 \<le> f then \<lfloor>f\<rfloor> else \<lceil>f\<rceil>)"
| "int_of_jval (JStr s) = int_of_str s"

datatype attempt = Authenticated | Status_error nat "string option" | Failed

text \<open>The body of the \<^verbatim>\<open>try\<close> in \<^verbatim>\<open>authenticate\<close>, one attempt.\<close>

definition account_step :: "env \<Rightarrow> client \<Rightarrow> body \<Rightarrow> attempt \<times> client" where
  "account_step e c account_data =
     (case account_data of
        Objs (first # _) \<Rightarrow>
          (case map_of first ''id'' of
             None \<Rightarrow> (Failed, c)
           | Some aid \<Rightarrow>
               let c1 = c\<lparr>account_id := aid, account_spec := dict_get first ''name''\<rparr> in
               (case (case TRADOVATE_ACCOUNT_ID e of
                        None \<Rightarrow> int_of_jval aid | Some v \<Rightarrow> int_of_str v) of
                  None \<Rightarrow> (Failed, c1)
                | Some n \<Rightarrow>
                    let c2 = c1\<lparr>account_id := JInt n,
                               account_spec := (case TRADOVATE_ACCOUNT_SPEC e of
                                  None \<Rightarrow> account_spec c1 | Some v \<Rightarrow> JStr v)\<rparr>
                    in if \<not> truthy (account_spec c2) then (Failed, c2)
                       else if \<not> truthy (account_id c2) then (Failed, c2)
                       else (Authenticated, c2)))
      | _ \<Rightarrow> (Failed, c))"

definition auth_attempt :: "broker \<Rightarrow> env \<Rightarrow> client \<Rightarrow> io \<Rightarrow> attempt \<times> client \<times> io" where
  "auth_attempt B e c s =
     (case send B Auth_token_request s of
        (Raised, s1) \<Rightarrow> (Failed, c, s1)
      | (Reply code hdr data, s1) \<Rightarrow>
          if raises_for_status code then (Status_error code hdr, c, s1)
          else (case data of
                  Obj d \<Rightarrow>
                    (case map_of d ''accessToken'' of
                       None \<Rightarrow> (Failed, c, s1)
                     | Some tok \<Rightarrow>
                         let c1 = c\<lparr>access_token := tok\<rparr> in
                         (case send B Account_list s1 of
                            (Raised, s2) \<Rightarrow> (Failed, c1, s2)
                          | (Reply code2 hdr2 account_data, s2) \<Rightarrow>
                              if raises_for_status code2 then (Status_error code2 hdr2, c1, s2)
                              else (case account_step e c1 account_data of
                                      (a, c2) \<Rightarrow> (a, c2, s2))))
                | _ \<Rightarrow> (Failed, c, s1)))"

definition max_retries :: nat where
  "max_retries = 5"

definition backoff_factor :: int where
  "backoff_factor = 2"

text \<open>\<^verbatim>\<open>int(e.response.headers.get("Retry-After", backoff_factor * (attempt + 1)))\<close>\<close>

definition retry_after :: "string option \<Rightarrow> nat \<Rightarrow> int option" where
  "retry_after hdr attempt =
     (case hdr of
        None \<Rightarrow> Some (backoff_factor * (int attempt + 1))
      | Some v \<Rightarrow> int_of_str v)"

fun authenticate_loop ::
  "broker \<Rightarrow> env \<Rightarrow> nat list \<Rightarrow> client \<Rightarrow> io \<Rightarrow> (exn + unit) \<times> client \<times> io" where
  "authenticate_loop B e [] c s =
     (Inl (HTTPException 429 ''Authentication failed after maximum retries''), c,
      write_log Max_retries_reached s)"
| "authenticate_loop B e (attempt # rest) c s =
     (case auth_attempt B e c s of
        (Authenticated, c1, s1) \<Rightarrow> (Inr (), c1, s1)
      | (Status_error code hdr, c1, s1) \<Rightarrow>
          if code = 429 then
            (case retry_after hdr attempt of
               None \<Rightarrow> (Inl (Error ''ValueError''), c1, s1)
             | Some n \<Rightarrow>
                 authenticate_loop B e rest c1 (sleep_seconds n (write_log (Rate_limited n) s1)))
          else (Inl (HTTPException code ''Authentication failed''), c1, s1)
      | (Failed, c1, s1) \<Rightarrow>
          (Inl (HTTPException 500 ''Internal server error during authentication''), c1, s1))"

definition authenticate :: "broker \<Rightarrow> env \<Rightarrow> client \<Rightarrow> io \<Rightarrow> (exn + unit) \<times> client \<times> io" where
  "authenticate B e c s = authenticate_loop B e [0..<max_retries] c s"

text \<open>\<^verbatim>\<open>if not self.access_token: await self.authenticate()\<close>\<close>

definition ensure_token :: "broker \<Rightarrow> env \<Rightarrow> client \<Rightarrow> io \<Rightarrow> (exn + unit) \<times> client \<times> io" where
  "ensure_token B e c s =
     (if \<not> truthy (access_token c) then authenticate B e c s else (Inr (), c, s))"

text \<open>
  \<^verbatim>\<open>place_order\<close>. The caller's \<^verbatim>\<open>order_data\<close> is used when it is a non-empty dict,
  else the default payload is built.
\<close>

definition default_payload :: "client \<Rightarrow> jval \<Rightarrow> string \<Rightarrow> int \<Rightarrow> obj" where
  "default_payload c symbol action quantity =
     [(''accountId'', account_id c), (''action'', JStr (capitalize action)),
      (''symbol'', symbol), (''orderQty'', JInt quantity),
      (''orderType'', JStr ''limit''), (''timeInForce'', JStr ''GTC''),
      (''isAutomated'', JBool True)]"

definition place_order ::
  "broker \<Rightarrow> env \<Rightarrow> jval \<Rightarrow> string \<Rightarrow> int \<Rightarrow> obj option \<Rightarrow> client \<Rightarrow> io \<Rightarrow>
     (exn + body) \<times> client \<times> io" where
  "place_order B e symbol action quantity order_data c s =
     (case ensure_token B e c s of
        (Inl err, c1, s1) \<Rightarrow> (Inl err, c1, s1)
      | (Inr _, c1, s1) \<Rightarrow>
          let order_payload =
                (case order_data of
                   None \<Rightarrow> default_payload c1 symbol action quantity
                 | Some d \<Rightarrow> if d = [] then default_payload c1 symbol action quantity else d)
          in if \<not> truthy (dict_get order_payload ''accountId'')
             then (Inl (HTTPException 400 ''Missing accountId in order payload''), c1, s1)
             else (case send B (Place_order order_payload) s1 of
                     (Raised, s2) \<Rightarrow>
                       (Inl (HTTPException 500 ''Internal server error during order placement''),
                        c1, s2)
                   | (Reply code hdr response_data, s2) \<Rightarrow>
                       if raises_for_status code
                       then (Inl (HTTPException code ''Order placement failed''), c1, s2)
                       else if response_data = Not_json
                       then (Inl (HTTPException 500
                               ''Internal server error during order placement''), c1, s2)
                       else (Inr response_data, c1, s2)))"

text \<open>\<^verbatim>\<open>cancel_order\<close>\<close>

definition already_handled :: body where
  "already_handled =
     Obj [(''status'', JStr ''already_handled''),
          (''message'', JStr ''Order already filled or cancelled'')]"

definition cancel_order ::
  "broker \<Rightarrow> env \<Rightarrow> jval \<Rightarrow> client \<Rightarrow> io \<Rightarrow> (exn + body) \<times> client \<times> io" where
  "cancel_order B e order_id c s =
     (case ensure_token B e c s of
        (Inl err, c1, s1) \<Rightarrow> (Inl err, c1, s1)
      | (Inr _, c1, s1) \<Rightarrow>
          (case send B (Cancel_order_request order_id) s1 of
             (Raised, s2) \<Rightarrow>
               (Inl (HTTPException 500 ''Internal server error canceling order''), c1, s2)
           | (Reply code hdr response_data, s2) \<Rightarrow>
               if raises_for_status code then
                 (if code = 404 then (Inr already_handled, c1, s2)
                  else (Inl (HTTPException code ''Failed to cancel order''), c1, s2))
               else if response_data = Not_json
               then (Inl (HTTPException 500 ''Internal server error canceling order''), c1, s2)
               else (Inr response_data, c1, s2)))"


subsection \<open>Rate limiting\<close>

definition auth_requests :: "event list \<Rightarrow> nat" where
  "auth_requests evs = length (filter (\<lambda>ev. ev = Sent Auth_token_request) evs)"

lemma auth_requests_append [simp]:
  "auth_requests (xs @ ys) = auth_requests xs + auth_requests ys"
  by (simp add: auth_requests_def)

lemma auth_attempt_requests:
  "auth_attempt B e c s = (a, c1, s1) \<Longrightarrow>
     auth_requests (events s1) = Suc (auth_requests (events s))"
  by (auto simp: auth_attempt_def send_def auth_requests_def Let_def
      split: prod.splits reply.splits if_splits body.splits option.splits)

lemma authenticate_loop_requests:
  "authenticate_loop B e as c s = (r, c', s') \<Longrightarrow>
     auth_requests (events s') \<le> auth_requests (events s) + length as"
proof (induction as arbitrary: c s)
  case Nil
  then show ?case by (auto simp: write_log_def auth_requests_def)
next
  case (Cons a as)
  obtain outcome c1 s1 where att: "auth_attempt B e c s = (outcome, c1, s1)"
    by (cases "auth_attempt B e c s")
  have n1: "auth_requests (events s1) = Suc (auth_requests (events s))"
    using att by (rule auth_attempt_requests)
  show ?case
  proof (cases "\<exists>hdr n. outcome = Status_error 429 hdr \<and> retry_after hdr a = Some n")
    case True
    then obtain hdr n where h: "outcome = Status_error 429 hdr" "retry_after hdr a = Some n"
      by blast
    let ?s2 = "sleep_seconds n (write_log (Rate_limited n) s1)"
    have "authenticate_loop B e as c1 ?s2 = (r, c', s')"
      using Cons.prems att h by simp
    from Cons.IH [OF this]
    have "auth_requests (events s') \<le> auth_requests (events ?s2) + length as" .
    moreover have "auth_requests (events ?s2) = auth_requests (events s1)"
      by (simp add: sleep_seconds_def sleep_ms_def write_log_def auth_requests_def)
    ultimately show ?thesis using n1 by simp
  next
    case False
    then have "s' = s1"
      using Cons.prems att
      by (cases outcome) (auto split: if_splits option.splits)
    then show ?thesis using n1 by simp
  qed
qed

text \<open>The events of one rate-limited attempt that advertises \<open>h\<close> at attempt number \<open>a\<close>.\<close>

definition backed_off :: "string option \<Rightarrow> nat \<Rightarrow> event list" where
  "backed_off h a =
     (case retry_after h a of
        None \<Rightarrow> []
      | Some n \<Rightarrow> [Sent Auth_token_request, Logged (Rate_limited n), Slept (nat (n * 1000))])"

lemma authenticate_loop_rate_limited:
  assumes "length hs = length as"
    and "\<forall>i < length as. \<exists>b ms. B (calls s + i) Auth_token_request = (Reply 429 (hs ! i) b, ms)"
    and "\<forall>i < length as. retry_after (hs ! i) (as ! i) \<noteq> None"
  shows "\<exists>s'. authenticate_loop B e (as @ rest) c s = authenticate_loop B e rest c s'
           \<and> calls s' = calls s + length as
           \<and> events s' = events s @ concat (map2 backed_off hs as)"
  using assms
proof (induction hs as arbitrary: s rule: list_induct2)
  case Nil
  show ?case by (rule exI [of _ s]) simp
next
  case (Cons h hs a as)
  from Cons.prems(1) [rule_format, of 0]
  obtain b ms where b0: "B (calls s) Auth_token_request = (Reply 429 h b, ms)"
    by auto
  from Cons.prems(2) [rule_format, of 0] obtain n where n: "retry_after h a = Some n"
    by auto
  let ?s1 = "s\<lparr>now := now s + ms, calls := Suc (calls s),
               events := events s @ [Sent Auth_token_request]\<rparr>"
  let ?s2 = "sleep_seconds n (write_log (Rate_limited n) ?s1)"
  have at: "auth_attempt B e c s = (Status_error 429 h, c, ?s1)"
    using b0 by (simp add: auth_attempt_def send_def raises_for_status_def)
  have step: "authenticate_loop B e ((a # as) @ rest) c s = authenticate_loop B e (as @ rest) c ?s2"
    using at n by simp
  have c2: "calls ?s2 = Suc (calls s)"
    by (simp add: sleep_seconds_def sleep_ms_def write_log_def)
  have e2: "events ?s2 = events s @ backed_off h a"
    using n by (simp add: sleep_seconds_def sleep_ms_def write_log_def backed_off_def)
  have p1: "\<forall>i < length as. \<exists>b ms.
      B (calls ?s2 + i) Auth_token_request = (Reply 429 (hs ! i) b, ms)"
  proof (intro allI impI)
    fix i assume "i < length as"
    then have "Suc i < length (a # as)" by simp
    from Cons.prems(1) [rule_format, OF this] show
      "\<exists>b ms. B (calls ?s2 + i) Auth_token_request = (Reply 429 (hs ! i) b, ms)"
      using c2 by simp
  qed
  have p2: "\<forall>i < length as. retry_after (hs ! i) (as ! i) \<noteq> None"
  proof (intro allI impI)
    fix i assume "i < length as"
    then have "Suc i < length (a # as)" by simp
    from Cons.prems(2) [rule_format, OF this]
    show "retry_after (hs ! i) (as ! i) \<noteq> None" by simp
  qed
  from Cons.IH [OF p1 p2] obtain s' where
    s': "authenticate_loop B e (as @ rest) c ?s2 = authenticate_loop B e rest c s'"
        "calls s' = calls ?s2 + length as"
        "events s' = events ?s2 @ concat (map2 backed_off hs as)"
    by blast
  show ?case
  proof (intro exI conjI)
    show "authenticate_loop B e ((a # as) @ rest) c s = authenticate_loop B e rest c s'"
      using step s'(1) by simp
    show "calls s' = calls s + length (a # as)" using s'(2) c2 by simp
    show "events s' = events s @ concat (map2 backed_off (h # hs) (a # as))"
      using s'(3) e2 by simp
  qed
qed

text \<open>A broker that rate-limits the first call of a run and accepts afterwards.\<close>

definition token_body :: body where
  "token_body = Obj [(''accessToken'', JStr ''tok'')]"

definition accounts_body :: body where
  "accounts_body = Objs [[(''id'', JInt 7), (''name'', JStr ''DEMO'')]]"

definition limited_once :: broker where
  "limited_once k req =
     (if k = 0 then (Reply 429 (Some ''2'') Not_json, 10)
      else case req of
             Auth_token_request \<Rightarrow> (Reply 200 None token_body, 10)
           | Account_list \<Rightarrow> (Reply 200 None accounts_body, 10)
           | _ \<Rightarrow> (Reply 200 None (Obj [(''id'', JInt 1001)]), 10))"

definition no_env :: env where
  "no_env = \<lparr>TRADOVATE_ACCOUNT_ID = None, TRADOVATE_ACCOUNT_SPEC = None\<rparr>"

definition logged_in :: client where
  "logged_in = \<lparr>access_token = JStr ''tok'', account_id = JInt 7, account_spec = JStr ''DEMO''\<rparr>"

definition clean_io :: io where
  "clean_io = \<lparr>now = 0, calls = 0, events = []\<rparr>"

definition entry_payload :: obj where
  "entry_payload =
     [(''accountId'', JInt 7), (''symbol'', JStr ''NQM5''), (''action'', JStr ''Buy''),
      (''orderQty'', JInt 1), (''orderType'', JStr ''Stop''), (''price'', JNull),
      (''stopPrice'', JFloat 100), (''timeInForce'', JStr ''GTC''),
      (''isAutomated'', JBool True)]"

lemmas adapter_eval =
  send_def sleep_seconds_def sleep_ms_def write_log_def raises_for_status_def ensure_token_def
  auth_attempt_def account_step_def retry_after_def backoff_factor_def max_retries_def
  authenticate_def dict_get_def Let_def
  token_body_def accounts_body_def limited_once_def no_env_def logged_in_def clean_io_def
  entry_payload_def

lemma int_of_str_2: "int_of_str ''2'' = Some 2"
  by (simp add: int_of_str_def strip_def is_space_def is_digit_def digits_value_def)

lemma upt_5: "[0..<5] = [0, 1, 2, 3, 4]"
  by code_simp

text \<open>
  Claim C8, as stated, fails for order placement: the broker answers 429 with
  Retry-After 2 to the placement and would accept a second one, yet \<open>place_order\<close> raises
  at once, after one request and no wait.
\<close>

theorem place_order_429_counterexample:
  "place_order limited_once no_env (JStr ''NQM5'') ''Buy'' 1 (Some entry_payload) logged_in clean_io
     = (Inl (HTTPException 429 ''Order placement failed''), logged_in,
        \<lparr>now = 10, calls = 1, events = [Sent (Place_order entry_payload)]\<rparr>)
   \<and> fst (limited_once 1 (Place_order entry_payload)) = Reply 200 None (Obj [(''id'', JInt 1001)])"
  by (simp add: place_order_def adapter_eval)

text \<open>
  Claim C8, amended. Authentication sends at most five token requests. As long as the
  broker answers them with 429, each is followed by a wait of the advertised Retry-After
  seconds (twice the attempt number when the header is absent) and the next attempt;
  after five such answers it fails with the exhaustion error. Order placement has no
  retry: with a token at hand, a 429 on the placement is raised at once as an
  \<open>HTTPException\<close> with that status, after the single request.
\<close>

theorem rate_limit_retry_in_authentication_only:
  "(authenticate B e c s = (r, c', s') \<longrightarrow>
      auth_requests (events s') \<le> auth_requests (events s) + 5)
   \<and> (length hs \<le> 5
        \<and> (\<forall>i < length hs. \<exists>b ms.
              B (calls s + i) Auth_token_request = (Reply 429 (hs ! i) b, ms))
        \<and> (\<forall>i < length hs. retry_after (hs ! i) i \<noteq> None) \<longrightarrow>
      (\<exists>s1. authenticate B e c s = authenticate_loop B e [length hs..<5] c s1
           \<and> events s1 = events s @ concat (map2 backed_off hs [0..<length hs]))
      \<and> (length hs = 5 \<longrightarrow>
           fst (authenticate B e c s)
             = Inl (HTTPException 429 ''Authentication failed after maximum retries'')))
   \<and> (truthy (access_token c) \<and> truthy (dict_get p ''accountId'')
        \<and> B (calls s) (Place_order p) = (Reply 429 hdr b, ms) \<longrightarrow>
      place_order B e symbol action q (Some p) c s
        = (Inl (HTTPException 429 ''Order placement failed''), c,
           s\<lparr>now := now s + ms, calls := Suc (calls s),
             events := events s @ [Sent (Place_order p)]\<rparr>))"
proof (intro conjI impI)
  assume "authenticate B e c s = (r, c', s')"
  then have "auth_requests (events s') \<le> auth_requests (events s) + length [0..<max_retries]"
    unfolding authenticate_def by (rule authenticate_loop_requests)
  then show "auth_requests (events s') \<le> auth_requests (events s) + 5"
    by (simp add: max_retries_def)
next
  assume h: "length hs \<le> 5
        \<and> (\<forall>i < length hs. \<exists>b ms.
              B (calls s + i) Auth_token_request = (Reply 429 (hs ! i) b, ms))
        \<and> (\<forall>i < length hs. retry_after (hs ! i) i \<noteq> None)"
  let ?as = "[0..<length hs]"
  have l: "length hs = length ?as" by simp
  have a1: "\<forall>i < length ?as. \<exists>b ms.
      B (calls s + i) Auth_token_request = (Reply 429 (hs ! i) b, ms)"
    using h by simp
  have a2: "\<forall>i < length ?as. retry_after (hs ! i) (?as ! i) \<noteq> None"
    using h by simp
  have split: "[0..<max_retries] = ?as @ [length hs..<5]"
    using h upt_add_eq_append [of 0 "length hs" "5 - length hs"]
    by (simp add: max_retries_def)
  from authenticate_loop_rate_limited
    [where hs = hs and as = ?as and B = B and s = s and e = e and rest = "[length hs..<5]"
       and c = c, OF l a1 a2]
  obtain s1 where s1:
    "authenticate_loop B e (?as @ [length hs..<5]) c s
       = authenticate_loop B e [length hs..<5] c s1"
    "events s1 = events s @ concat (map2 backed_off hs ?as)"
    by blast
  then show "\<exists>s1. authenticate B e c s = authenticate_loop B e [length hs..<5] c s1
           \<and> events s1 = events s @ concat (map2 backed_off hs [0..<length hs])"
    unfolding authenticate_def split by blast
  show "fst (authenticate B e c s)
      = Inl (HTTPException 429 ''Authentication failed after maximum retries'')"
    if "length hs = 5"
    using s1(1) that unfolding authenticate_def split by simp
next
  assume h: "truthy (access_token c) \<and> truthy (dict_get p ''accountId'')
        \<and> B (calls s) (Place_order p) = (Reply 429 hdr b, ms)"
  then have "p \<noteq> []" by (auto simp: dict_get_def)
  with h show "place_order B e symbol action q (Some p) c s
        = (Inl (HTTPException 429 ''Order placement failed''), c,
           s\<lparr>now := now s + ms, calls := Suc (calls s),
             events := events s @ [Sent (Place_order p)]\<rparr>)"
    by (simp add: place_order_def ensure_token_def send_def raises_for_status_def)
qed

theorem rate_limit_retry_in_authentication_only_witness:
  "fst (authenticate limited_once no_env logged_in clean_io) = Inr ()
   \<and> events (snd (snd (authenticate limited_once no_env logged_in clean_io)))
       = [Sent Auth_token_request, Logged (Rate_limited 2), Slept 2000,
          Sent Auth_token_request, Sent Account_list]
   \<and> auth_requests (events (snd (snd (authenticate limited_once no_env logged_in clean_io)))) \<le> 5
   \<and> (\<exists>s1. authenticate limited_once no_env logged_in clean_io
            = authenticate_loop limited_once no_env [1..<5] logged_in s1
          \<and> events s1 = [Sent Auth_token_request, Logged (Rate_limited 2), Slept 2000])
   \<and> fst (place_order limited_once no_env (JStr ''NQM5'') ''Buy'' 1 (Some entry_payload) logged_in clean_io)
       = Inl (HTTPException 429 ''Order placement failed'')"
proof -
  have run: "authenticate limited_once no_env logged_in clean_io
      = (Inr (), logged_in,
         \<lparr>now = 2030, calls = 3,
          events = [Sent Auth_token_request, Logged (Rate_limited 2), Slept 2000,
                    Sent Auth_token_request, Sent Account_list]\<rparr>)"
    by (simp add: adapter_eval upt_5 int_of_str_2)
  have h2: "length [Some ''2''] \<le> (5::nat)
      \<and> (\<forall>i < length [Some ''2'']. \<exists>b ms.
            limited_once (calls clean_io + i) Auth_token_request
              = (Reply 429 ([Some ''2''] ! i) b, ms))
      \<and> (\<forall>i < length [Some ''2'']. retry_after ([Some ''2''] ! i) i \<noteq> None)"
    by (simp add: limited_once_def clean_io_def retry_after_def int_of_str_2)
  have h3: "truthy (access_token logged_in) \<and> truthy (dict_get entry_payload ''accountId'')
      \<and> limited_once (calls clean_io) (Place_order entry_payload)
          = (Reply 429 (Some ''2'') Not_json, 10)"
    by (simp add: adapter_eval)
  note t = rate_limit_retry_in_authentication_only
    [where B = limited_once and e = no_env and c = logged_in and s = clean_io
       and hs = "[Some ''2'']" and p = entry_payload and hdr = "Some ''2''" and b = Not_json
       and ms = 10 and symbol = "JStr ''NQM5''" and action = "''Buy''" and q = 1]
  from t run have bound:
    "auth_requests (events (snd (snd (authenticate limited_once no_env logged_in clean_io)))) \<le> 5"
    by (simp add: clean_io_def auth_requests_def)
  from t h2 have pre: "\<exists>s1. authenticate limited_once no_env logged_in clean_io
            = authenticate_loop limited_once no_env [1..<5] logged_in s1
          \<and> events s1 = [Sent Auth_token_request, Logged (Rate_limited 2), Slept 2000]"
    by (simp add: clean_io_def backed_off_def retry_after_def int_of_str_2)
  from t h3 have po:
    "fst (place_order limited_once no_env (JStr ''NQM5'') ''Buy'' 1 (Some entry_payload) logged_in clean_io)
       = Inl (HTTPException 429 ''Order placement failed'')"
    by simp
  show ?thesis using run bound pre po by simp
qed

text \<open>
  Claim C9. Once a token is at hand, a cancellation that the broker answers with an error
  status returns the \<open>already_handled\<close> result when the status is 404 and raises an
  \<open>HTTPException\<close> carrying the status otherwise.
\<close>

theorem cancel_404_is_success:
  assumes "ensure_token B e c s = (Inr u, c1, s1)"
    and "B (calls s1) (Cancel_order_request oid) = (Reply code hdr b, ms)"
    and "raises_for_status code"
  shows "fst (cancel_order B e oid c s) =
           (if code = 404 then Inr already_handled
            else Inl (HTTPException code ''Failed to cancel order''))"
proof -
  have "send B (Cancel_order_request oid) s1
      = (Reply code hdr b, s1\<lparr>now := now s1 + ms, calls := Suc (calls s1),
           events := events s1 @ [Sent (Cancel_order_request oid)]\<rparr>)"
    using assms(2) by (simp add: send_def)
  then show ?thesis
    using assms(1,3) by (simp add: cancel_order_def)
qed

definition gone :: broker where
  "gone k req = (Reply (if k = 0 then 404 else 500) None Not_json, 10)"

theorem cancel_404_is_success_witness:
  "fst (cancel_order gone no_env (JInt 1001) logged_in clean_io) = Inr already_handled
   \<and> fst (cancel_order gone no_env (JInt 1001) logged_in (clean_io\<lparr>calls := 1\<rparr>))
       = Inl (HTTPException 500 ''Failed to cancel order'')"
proof -
  have t: "ensure_token gone no_env logged_in s = (Inr (), logged_in, s)" for s
    by (simp add: ensure_token_def logged_in_def)
  have a: "gone (calls clean_io) (Cancel_order_request (JInt 1001)) = (Reply 404 None Not_json, 10)"
    by (simp add: gone_def clean_io_def)
  have b: "gone (calls (clean_io\<lparr>calls := 1\<rparr>)) (Cancel_order_request (JInt 1001))
      = (Reply 500 None Not_json, 10)"
    by (simp add: gone_def)
  show ?thesis
    using cancel_404_is_success [OF t a] cancel_404_is_success [OF t b]
    by (simp add: raises_for_status_def)
qed


section \<open>Reconciliation (main.py, enhanced\_main.py, main\_fixed.py)\<close>

text \<open>
  \<^verbatim>\<open>cancel_all_orders\<close> and \<^verbatim>\<open>wait_until_no_open_orders\<close> are those of enhanced\_main.py
  (lines 39-70 and 78-95), which imports \<^verbatim>\<open>httpx\<close>; main.py has the same text of
  \<^verbatim>\<open>cancel_all_orders\<close> (lines 86-117).
\<close>

text \<open>
  \<^verbatim>\<open>resp = get(list_url); resp.raise_for_status(); orders = resp.json()\<close>, followed by a
  comprehension over the listing. Iterating an array gives its objects; iterating an
  object gives its keys, and \<^verbatim>\<open>.get\<close> on a key raises unless there is none. \<open>None\<close> is
  the exception, which none of the functions below catches.
\<close>

definition items :: "body \<Rightarrow> obj list option" where
  "items b = (case b of Objs os \<Rightarrow> Some os | Obj [] \<Rightarrow> Some [] | Obj _ \<Rightarrow> None | Not_json \<Rightarrow> None)"

definition fetch :: "broker \<Rightarrow> request \<Rightarrow> io \<Rightarrow> obj list option \<times> io" where
  "fetch B req s =
     (case send B req s of
        (Raised, s1) \<Rightarrow> (None, s1)
      | (Reply code hdr b, s1) \<Rightarrow> (if raises_for_status code then None else items b, s1))"

definition not_terminal :: "jval \<Rightarrow> obj \<Rightarrow> bool" where
  "not_terminal symbol order =
     (dict_get order ''symbol'' = symbol \<and>
      dict_get order ''status'' \<notin> {JStr ''Filled'', JStr ''Cancelled'', JStr ''Rejected''})"

definition working :: "jval \<Rightarrow> obj \<Rightarrow> bool" where
  "working symbol order =
     (dict_get order ''symbol'' = symbol \<and>
      dict_get order ''status'' \<in> {JStr ''Working'', JStr ''Accepted''})"

text \<open>The inner \<^verbatim>\<open>for order in open_orders\<close> of \<^verbatim>\<open>cancel_all_orders\<close>.\<close>

fun cancel_each :: "broker \<Rightarrow> obj list \<Rightarrow> io \<Rightarrow> io" where
  "cancel_each B [] s = s"
| "cancel_each B (order # rest) s =
     (let oid = dict_get order ''id'' in
      if truthy oid then
        (case send B (Order_cancel oid) s of
           (Raised, s1) \<Rightarrow> cancel_each B rest (write_log (Cancel_failed oid) s1)
         | (Reply code hdr b, s1) \<Rightarrow> cancel_each B rest s1)
      else cancel_each B rest s)"

definition final_check :: "broker \<Rightarrow> jval \<Rightarrow> io \<Rightarrow> (exn + unit) \<times> io" where
  "final_check B symbol s =
     (case fetch B Order_list s of
        (None, s1) \<Rightarrow> (Inl (Error ''order list''), s1)
      | (Some orders, s1) \<Rightarrow>
          let open_orders = filter (not_terminal symbol) orders in
          if open_orders \<noteq> []
          then (Inr (), write_log (Still_open (map (\<lambda>order. dict_get order ''id'') open_orders)
                                       (map (\<lambda>order. dict_get order ''status'') open_orders)) s1)
          else (Inr (), s1))"

text \<open>\<^verbatim>\<open>for attempt in range(max_retries)\<close>, by the attempts that remain.\<close>

fun cancel_attempts :: "broker \<Rightarrow> jval \<Rightarrow> nat \<Rightarrow> io \<Rightarrow> (exn + unit) \<times> io" where
  "cancel_attempts B symbol 0 s = final_check B symbol s"
| "cancel_attempts B symbol (Suc n) s =
     (case fetch B Order_list s of
        (None, s1) \<Rightarrow> (Inl (Error ''order list''), s1)
      | (Some orders, s1) \<Rightarrow>
          let open_orders = filter (not_terminal symbol) orders in
          if open_orders = [] then final_check B symbol s1
          else cancel_attempts B symbol n (sleep_ms 500 (cancel_each B open_orders s1)))"

definition cancel_all_orders :: "broker \<Rightarrow> jval \<Rightarrow> io \<Rightarrow> (exn + unit) \<times> io" where
  "cancel_all_orders B symbol s = cancel_attempts B symbol 8 s"

text \<open>\<^verbatim>\<open>cancel_all_orders\<close> of main\_fixed.py: one request, whose response is not read.\<close>

definition post_ignoring_status :: "broker \<Rightarrow> request \<Rightarrow> io \<Rightarrow> (exn + unit) \<times> io" where
  "post_ignoring_status B req s =
     (case send B req s of
        (Raised, s1) \<Rightarrow> (Inl (Error ''request''), s1)
      | (Reply code hdr b, s1) \<Rightarrow> (Inr (), s1))"

definition cancel_all_orders_fixed :: "broker \<Rightarrow> jval \<Rightarrow> io \<Rightarrow> (exn + unit) \<times> io" where
  "cancel_all_orders_fixed B symbol s = post_ignoring_status B (Cancel_all_orders symbol) s"

definition flatten_position :: "broker \<Rightarrow> jval \<Rightarrow> io \<Rightarrow> (exn + unit) \<times> io" where
  "flatten_position B symbol s = post_ignoring_status B (Close_position symbol) s"

text \<open>
  \<^verbatim>\<open>wait_until_no_open_orders\<close>: the loop ends when the listing is clear or when, after a
  listing, more than \<open>timeout\<close> milliseconds have passed since \<open>start\<close>; both ways it
  returns nothing. Every further round comes after a sleep of 500 ms, which is why the
  loop is total.
\<close>

lemma now_send: "send B req s = (r, s1) \<Longrightarrow> now s \<le> now s1"
  by (auto simp: send_def split: prod.splits)

lemma now_fetch: "fetch B req s = (r, s1) \<Longrightarrow> now s \<le> now s1"
  by (auto simp: fetch_def split: prod.splits reply.splits dest: now_send)

function wait_loop :: "broker \<Rightarrow> jval \<Rightarrow> nat \<Rightarrow> nat \<Rightarrow> io \<Rightarrow> (exn + unit) \<times> io" where
  "wait_loop B symbol start timeout s =
     (case fetch B Order_list s of
        (None, s1) \<Rightarrow> (Inl (Error ''order list''), s1)
      | (Some orders, s1) \<Rightarrow>
          if filter (working symbol) orders = [] then (Inr (), s1)
          else if now s1 - start > timeout
          then (Inr (), write_log (Timeout_waiting_for_orders symbol) s1)
          else wait_loop B symbol start timeout (sleep_ms 500 s1))"
  by pat_completeness auto
termination
  by (relation "measure (\<lambda>(B, symbol, start, timeout, s). start + timeout + 1 - now s)")
    (auto simp: sleep_ms_def dest!: now_fetch [OF sym])

declare wait_loop.simps [simp del]

definition wait_until_no_open_orders :: "broker \<Rightarrow> jval \<Rightarrow> nat \<Rightarrow> io \<Rightarrow> (exn + unit) \<times> io" where
  "wait_until_no_open_orders B symbol timeout s = wait_loop B symbol (now s) timeout s"

subsection \<open>The cancel step\<close>

definition requests :: "event list \<Rightarrow> request list" where
  "requests evs = concat (map (\<lambda>ev. case ev of Sent r \<Rightarrow> [r] | _ \<Rightarrow> []) evs)"

definition sleeps :: "event list \<Rightarrow> nat list" where
  "sleeps evs = concat (map (\<lambda>ev. case ev of Slept d \<Rightarrow> [d] | _ \<Rightarrow> []) evs)"

lemma requests_append [simp]: "requests (xs @ ys) = requests xs @ requests ys"
  by (simp add: requests_def)

lemma sleeps_append [simp]: "sleeps (xs @ ys) = sleeps xs @ sleeps ys"
  by (simp add: sleeps_def)

lemma requests_simps [simp]:
  "requests [] = []" "requests (Sent r # evs) = r # requests evs"
  "requests (Slept d # evs) = requests evs" "requests (Logged l # evs) = requests evs"
  "requests (Observed lb st # evs) = requests evs"
  by (simp_all add: requests_def)

lemma sleeps_simps [simp]:
  "sleeps [] = []" "sleeps (Sent r # evs) = sleeps evs"
  "sleeps (Slept d # evs) = d # sleeps evs" "sleeps (Logged l # evs) = sleeps evs"
  "sleeps (Observed lb st # evs) = sleeps evs"
  by (simp_all add: sleeps_def)

lemma send_events:
  "send B req s = (r, s1) \<Longrightarrow> events s1 = events s @ [Sent req] \<and> calls s1 = Suc (calls s)"
  by (auto simp: send_def split: prod.splits)

lemma fetch_events:
  "fetch B req s = (r, s1) \<Longrightarrow> events s1 = events s @ [Sent req] \<and> calls s1 = Suc (calls s)"
  by (auto simp: fetch_def split: prod.splits reply.splits dest: send_events)

definition cancellable :: "obj list \<Rightarrow> jval list" where
  "cancellable orders = filter truthy (map (\<lambda>order. dict_get order ''id'') orders)"

lemma cancel_each_events:
  "\<exists>evs. events (cancel_each B orders s) = events s @ evs
       \<and> requests evs = map Order_cancel (cancellable orders) \<and> sleeps evs = []"
proof (induction orders arbitrary: s)
  case Nil
  show ?case by (simp add: cancellable_def)
next
  case (Cons order rest)
  let ?oid = "dict_get order ''id''"
  show ?case
  proof (cases "truthy ?oid")
    case False
    with Cons.IH [of s] show ?thesis by (simp add: cancellable_def Let_def)
  next
    case True
    obtain r s1 where snd: "send B (Order_cancel ?oid) s = (r, s1)"
      by (cases "send B (Order_cancel ?oid) s")
    then have e1: "events s1 = events s @ [Sent (Order_cancel ?oid)]"
      by (simp add: send_events)
    show ?thesis
    proof (cases r)
      case Raised
      let ?s2 = "write_log (Cancel_failed ?oid) s1"
      from Cons.IH [of ?s2] obtain evs where
        "events (cancel_each B rest ?s2) = events ?s2 @ evs"
        "requests evs = map Order_cancel (cancellable rest)" "sleeps evs = []"
        by blast
      then have "events (cancel_each B (order # rest) s)
          = events s @ (Sent (Order_cancel ?oid) # Logged (Cancel_failed ?oid) # evs)
        \<and> requests (Sent (Order_cancel ?oid) # Logged (Cancel_failed ?oid) # evs)
          = map Order_cancel (cancellable (order # rest))
        \<and> sleeps (Sent (Order_cancel ?oid) # Logged (Cancel_failed ?oid) # evs) = []"
        using True snd Raised e1 by (simp add: write_log_def cancellable_def Let_def)
      then show ?thesis by blast
    next
      case (Reply code hdr b)
      from Cons.IH [of s1] obtain evs where
        "events (cancel_each B rest s1) = events s1 @ evs"
        "requests evs = map Order_cancel (cancellable rest)" "sleeps evs = []"
        by blast
      then have "events (cancel_each B (order # rest) s)
          = events s @ (Sent (Order_cancel ?oid) # evs)
        \<and> requests (Sent (Order_cancel ?oid) # evs)
          = map Order_cancel (cancellable (order # rest))
        \<and> sleeps (Sent (Order_cancel ?oid) # evs) = []"
        using True snd Reply e1 by (simp add: cancellable_def Let_def)
      then show ?thesis by blast
    qed
  qed
qed

lemma final_check_events:
  "final_check B symbol s = (r, s') \<Longrightarrow>
     \<exists>evs. events s' = events s @ evs \<and> requests evs = [Order_list] \<and> sleeps evs = []"
  by (auto simp: final_check_def write_log_def Let_def
      split: prod.splits option.splits if_splits dest!: fetch_events)

definition listings :: "request list \<Rightarrow> nat" where
  "listings rs = length (filter (\<lambda>r. r = Order_list) rs)"

lemma listings_simps [simp]:
  "listings [] = 0" "listings (xs @ ys) = listings xs + listings ys"
  "listings (Order_list # rs) = Suc (listings rs)"
  "listings (map Order_cancel ids) = 0"
  by (simp_all add: listings_def)

lemma cancel_attempts_events:
  "cancel_attempts B symbol n s = (r, s') \<Longrightarrow>
     \<exists>evs. events s' = events s @ evs
        \<and> listings (requests evs) \<le> Suc n
        \<and> length (sleeps evs) \<le> n \<and> set (sleeps evs) \<subseteq> {500}"
proof (induction n arbitrary: s)
  case 0
  then have "final_check B symbol s = (r, s')" by simp
  from final_check_events [OF this] show ?case by auto
next
  case (Suc n)
  obtain f s1 where f: "fetch B Order_list s = (f, s1)"
    by (cases "fetch B Order_list s")
  then have e1: "events s1 = events s @ [Sent Order_list]"
    by (simp add: fetch_events)
  show ?case
  proof (cases f)
    case None
    with Suc.prems f have "s' = s1" by simp
    with e1 show ?thesis by simp
  next
    case (Some orders)
    let ?open = "filter (not_terminal symbol) orders"
    show ?thesis
    proof (cases "?open = []")
      case True
      with Suc.prems f Some have "final_check B symbol s1 = (r, s')" by simp
      from final_check_events [OF this] obtain evs where
        "events s' = events s1 @ evs" "requests evs = [Order_list]" "sleeps evs = []"
        by blast
      with e1 have "events s' = events s @ (Sent Order_list # evs)
          \<and> listings (requests (Sent Order_list # evs)) \<le> Suc (Suc n)
          \<and> length (sleeps (Sent Order_list # evs)) \<le> Suc n
          \<and> set (sleeps (Sent Order_list # evs)) \<subseteq> {500}"
        by simp
      then show ?thesis by blast
    next
      case False
      let ?s2 = "cancel_each B ?open s1"
      let ?s3 = "sleep_ms 500 ?s2"
      from cancel_each_events [of B ?open s1] obtain cs where
        cs: "events ?s2 = events s1 @ cs" "requests cs = map Order_cancel (cancellable ?open)"
            "sleeps cs = []"
        by blast
      have e3: "events ?s3 = events s @ (Sent Order_list # cs @ [Slept 500])"
        using cs(1) e1 by (simp add: sleep_ms_def)
      have "cancel_attempts B symbol n ?s3 = (r, s')"
        using Suc.prems f Some False by (simp add: Let_def)
      from Suc.IH [OF this] obtain evs where
        evs: "events s' = events ?s3 @ evs" "listings (requests evs) \<le> Suc n"
             "length (sleeps evs) \<le> n" "set (sleeps evs) \<subseteq> {500}"
        by blast
      let ?all = "Sent Order_list # cs @ [Slept 500] @ evs"
      have "events s' = events s @ ?all \<and> listings (requests ?all) \<le> Suc (Suc n)
          \<and> length (sleeps ?all) \<le> Suc n \<and> set (sleeps ?all) \<subseteq> {500}"
        using evs e3 cs(2,3) by simp
      then show ?thesis by blast
    qed
  qed
qed

definition listing_ok :: "broker \<Rightarrow> bool" where
  "listing_ok B =
     (\<forall>k. \<exists>code hdr os ms.
        B k Order_list = (Reply code hdr (Objs os), ms) \<and> \<not> raises_for_status code)"

lemma fetch_listing_ok:
  "listing_ok B \<Longrightarrow> \<exists>os s1. fetch B Order_list s = (Some os, s1)"
proof -
  assume "listing_ok B"
  then obtain code hdr os ms where
    "B (calls s) Order_list = (Reply code hdr (Objs os), ms)" "\<not> raises_for_status code"
    unfolding listing_ok_def by blast
  then show ?thesis by (simp add: fetch_def send_def items_def)
qed

definition still_open :: "jval \<Rightarrow> obj list \<Rightarrow> event" where
  "still_open symbol orders =
     Logged (Still_open (map (\<lambda>order. dict_get order ''id'') (filter (not_terminal symbol) orders))
                        (map (\<lambda>order. dict_get order ''status'')
                           (filter (not_terminal symbol) orders)))"

lemma final_check_result:
  assumes "listing_ok B" and "final_check B symbol s = (r, s')"
  shows "r = Inr () \<and>
    (\<forall>code hdr os ms. B (calls s' - 1) Order_list = (Reply code hdr (Objs os), ms) \<and>
        filter (not_terminal symbol) os \<noteq> [] \<longrightarrow> last (events s') = still_open symbol os)"
proof -
  from assms(1) obtain code hdr os ms where
    b: "B (calls s) Order_list = (Reply code hdr (Objs os), ms)" "\<not> raises_for_status code"
    unfolding listing_ok_def by blast
  then have f: "fetch B Order_list s
      = (Some os, s\<lparr>now := now s + ms, calls := Suc (calls s),
                    events := events s @ [Sent Order_list]\<rparr>)"
    by (simp add: fetch_def send_def items_def)
  show ?thesis
    using assms(2) b(1) unfolding final_check_def f
    by (auto simp: Let_def write_log_def still_open_def split: if_splits)
qed

lemma cancel_attempts_result:
  assumes "listing_ok B"
  shows "cancel_attempts B symbol n s = (r, s') \<Longrightarrow>
    r = Inr () \<and>
    (\<forall>code hdr os ms. B (calls s' - 1) Order_list = (Reply code hdr (Objs os), ms) \<and>
        filter (not_terminal symbol) os \<noteq> [] \<longrightarrow> last (events s') = still_open symbol os)"
proof (induction n arbitrary: s)
  case 0
  then have "final_check B symbol s = (r, s')" by simp
  with assms show ?case by (rule final_check_result)
next
  case (Suc n)
  from fetch_listing_ok [OF assms, of s] obtain os s1 where
    f: "fetch B Order_list s = (Some os, s1)" by blast
  show ?case
  proof (cases "filter (not_terminal symbol) os = []")
    case True
    with Suc.prems f have "final_check B symbol s1 = (r, s')" by simp
    with assms show ?thesis by (rule final_check_result)
  next
    case False
    with Suc.prems f have
      "cancel_attempts B symbol n (sleep_ms 500 (cancel_each B (filter (not_terminal symbol) os) s1))
         = (r, s')"
      by (simp add: Let_def)
    then show ?thesis by (rule Suc.IH)
  qed
qed

text \<open>The orders that a cancel round would act on, read off the answer that the broker
  gives to a listing as its \<open>k\<close>-th request: \<open>None\<close> when the listing raises.\<close>

definition open_at :: "broker \<Rightarrow> jval \<Rightarrow> nat \<Rightarrow> obj list option" where
  "open_at B symbol k =
     (case fst (B k Order_list) of
        Raised \<Rightarrow> None
      | Reply code hdr b \<Rightarrow>
          if raises_for_status code then None
          else map_option (filter (not_terminal symbol)) (items b))"

lemma fetch_open_at:
  "fetch B Order_list s = (f, s1) \<Longrightarrow>
     open_at B symbol (calls s) = map_option (filter (not_terminal symbol)) f"
  by (auto simp: fetch_def send_def open_at_def split: prod.splits reply.splits if_splits)

lemma calls_cancel_each:
  "calls (cancel_each B orders s) = calls s + length (cancellable orders)"
proof (induction orders arbitrary: s)
  case Nil
  show ?case by (simp add: cancellable_def)
next
  case (Cons order rest)
  show ?case
  proof (cases "truthy (dict_get order ''id'')")
    case False
    with Cons.IH [of s] show ?thesis by (simp add: cancellable_def Let_def)
  next
    case True
    obtain r s1 where snd: "send B (Order_cancel (dict_get order ''id'')) s = (r, s1)"
      by (cases "send B (Order_cancel (dict_get order ''id'')) s")
    then have c1: "calls s1 = Suc (calls s)" by (simp add: send_events)
    show ?thesis
      using True snd c1 Cons.IH [of s1]
        Cons.IH [of "write_log (Cancel_failed (dict_get order ''id'')) s1"]
      by (cases r) (simp_all add: cancellable_def Let_def write_log_def)
  qed
qed

lemma calls_final_check: "final_check B symbol s = (r, s') \<Longrightarrow> calls s' = Suc (calls s)"
  by (auto simp: final_check_def write_log_def Let_def
      split: prod.splits option.splits if_splits dest!: fetch_events)

lemma calls_cancel_attempts:
  "cancel_attempts B symbol n s = (r, s') \<Longrightarrow> calls s < calls s'"
proof (induction n arbitrary: s)
  case 0
  then show ?case by (simp add: calls_final_check)
next
  case (Suc n)
  obtain f s1 where f: "fetch B Order_list s = (f, s1)"
    by (cases "fetch B Order_list s")
  then have c1: "calls s1 = Suc (calls s)" by (simp add: fetch_events)
  show ?case
  proof (cases f)
    case None
    with Suc.prems f c1 show ?thesis by simp
  next
    case (Some orders)
    let ?open = "filter (not_terminal symbol) orders"
    show ?thesis
    proof (cases "?open = []")
      case True
      with Suc.prems f Some have "final_check B symbol s1 = (r, s')" by simp
      from calls_final_check [OF this] c1 show ?thesis by simp
    next
      case False
      let ?s3 = "sleep_ms 500 (cancel_each B ?open s1)"
      have "cancel_attempts B symbol n ?s3 = (r, s')"
        using Suc.prems f Some False by (simp add: Let_def)
      from Suc.IH [OF this] have "calls ?s3 < calls s'" .
      moreover have "calls ?s3 = calls s1 + length (cancellable ?open)"
        by (simp add: sleep_ms_def calls_cancel_each)
      ultimately show ?thesis using c1 by simp
    qed
  qed
qed

text \<open>One round, and what follows it: the step goes on from the state after the sleep
  with one attempt less.\<close>

lemma cancel_attempts_round:
  assumes "fetch B Order_list s = (Some orders, s1)"
    and "filter (not_terminal symbol) orders \<noteq> []"
    and "cancel_attempts B symbol (Suc n) s = (r, s')"
  shows "\<exists>evs s2. events s2 = events s @ Sent Order_list # evs @ [Slept 500]
           \<and> requests evs = map Order_cancel (cancellable (filter (not_terminal symbol) orders))
           \<and> sleeps evs = []
           \<and> calls s2 = calls s + 1 + length (cancellable (filter (not_terminal symbol) orders))
           \<and> cancel_attempts B symbol n s2 = (r, s')"
proof -
  let ?open = "filter (not_terminal symbol) orders"
  let ?s2 = "cancel_each B ?open s1"
  let ?s3 = "sleep_ms 500 ?s2"
  have e1: "events s1 = events s @ [Sent Order_list]" "calls s1 = Suc (calls s)"
    using fetch_events [OF assms(1)] by simp_all
  from cancel_each_events [of B ?open s1] obtain evs where
    evs: "events ?s2 = events s1 @ evs" "requests evs = map Order_cancel (cancellable ?open)"
         "sleeps evs = []"
    by blast
  have run: "cancel_attempts B symbol n ?s3 = (r, s')"
    using assms by (simp add: Let_def)
  have "events ?s3 = events s @ Sent Order_list # evs @ [Slept 500]"
    using evs(1) e1(1) by (simp add: sleep_ms_def)
  moreover have "calls ?s3 = calls s + 1 + length (cancellable ?open)"
    using e1(2) by (simp add: sleep_ms_def calls_cancel_each)
  ultimately show ?thesis using evs(2,3) run by blast
qed

text \<open>The step does not give up early: a run that returns after fewer sleeps than it had
  attempts has seen a listing with nothing left to cancel.\<close>

lemma cancel_attempts_until_clear:
  "cancel_attempts B symbol n s = (Inr (), s') \<Longrightarrow> events s' = events s @ evs \<Longrightarrow>
     length (sleeps evs) < n \<Longrightarrow>
     \<exists>k. calls s \<le> k \<and> k < calls s' \<and> open_at B symbol k = Some []"
proof (induction n arbitrary: s evs)
  case 0
  then show ?case by simp
next
  case (Suc n)
  obtain f s1 where f: "fetch B Order_list s = (f, s1)"
    by (cases "fetch B Order_list s")
  show ?case
  proof (cases f)
    case None
    with Suc.prems(1) f show ?thesis by simp
  next
    case (Some orders)
    let ?open = "filter (not_terminal symbol) orders"
    from f Some have f': "fetch B Order_list s = (Some orders, s1)" by simp
    show ?thesis
    proof (cases "?open = []")
      case True
      from fetch_open_at [OF f', of symbol] True
      have "open_at B symbol (calls s) = Some []" by simp
      moreover from calls_cancel_attempts [OF Suc.prems(1)] have "calls s < calls s'" .
      ultimately show ?thesis by blast
    next
      case False
      from cancel_attempts_round [OF f' False Suc.prems(1)] obtain cs s2 where
        r: "events s2 = events s @ Sent Order_list # cs @ [Slept 500]" "sleeps cs = []"
           "calls s2 = calls s + 1 + length (cancellable ?open)"
           "cancel_attempts B symbol n s2 = (Inr (), s')"
        by blast
      from cancel_attempts_events [OF r(4)] obtain rest where
        rest: "events s' = events s2 @ rest" by blast
      with r(1) Suc.prems(2) have "evs = Sent Order_list # cs @ [Slept 500] @ rest" by simp
      with r(2) Suc.prems(3) have "length (sleeps rest) < n" by simp
      from Suc.IH [OF r(4) rest this] obtain k where
        "calls s2 \<le> k" "k < calls s'" "open_at B symbol k = Some []" by blast
      with r(3) show ?thesis by (intro exI [of _ k]) simp
    qed
  qed
qed

lemma cancel_attempts_round_trace:
  "fetch B Order_list s = (Some orders, s1) \<and> cancel_attempts B symbol (Suc n) s = (r, s') \<longrightarrow>
      (filter (not_terminal symbol) orders = [] \<longrightarrow> final_check B symbol s1 = (r, s'))
      \<and> (filter (not_terminal symbol) orders \<noteq> [] \<longrightarrow>
           (\<exists>evs rest. events s' = events s @ Sent Order_list # evs @ Slept 500 # rest
              \<and> requests evs
                   = map Order_cancel (cancellable (filter (not_terminal symbol) orders)))
           \<and> (\<exists>evs s2. events s2 = events s @ Sent Order_list # evs @ [Slept 500]
              \<and> requests evs
                   = map Order_cancel (cancellable (filter (not_terminal symbol) orders))
              \<and> cancel_attempts B symbol n s2 = (r, s')))"
proof (intro conjI impI)
  assume h: "fetch B Order_list s = (Some orders, s1) \<and> cancel_attempts B symbol (Suc n) s = (r, s')"
    and e: "filter (not_terminal symbol) orders = []"
  then show "final_check B symbol s1 = (r, s')" by (auto simp: Let_def)
next
  let ?open = "filter (not_terminal symbol) orders"
  assume h: "fetch B Order_list s = (Some orders, s1) \<and> cancel_attempts B symbol (Suc n) s = (r, s')"
    and ne: "?open \<noteq> []"
  from h have h1: "fetch B Order_list s = (Some orders, s1)"
    and h2: "cancel_attempts B symbol (Suc n) s = (r, s')" by blast+
  from cancel_attempts_round [OF h1 ne h2] obtain evs s2 where
    r: "events s2 = events s @ Sent Order_list # evs @ [Slept 500]"
       "requests evs = map Order_cancel (cancellable ?open)"
       "cancel_attempts B symbol n s2 = (r, s')"
    by blast
  from cancel_attempts_events [OF r(3)] obtain rest where
    "events s' = events s2 @ rest" by blast
  with r(1) have "events s' = events s @ Sent Order_list # evs @ Slept 500 # rest" by simp
  with r(2) show "\<exists>evs rest. events s' = events s @ Sent Order_list # evs @ Slept 500 # rest
      \<and> requests evs = map Order_cancel (cancellable ?open)"
    by blast
  from r show "\<exists>evs s2. events s2 = events s @ Sent Order_list # evs @ [Slept 500]
      \<and> requests evs = map Order_cancel (cancellable ?open)
      \<and> cancel_attempts B symbol n s2 = (r, s')"
    by blast
qed

lemma cancel_all_orders_budget:
  "cancel_all_orders B symbol s = (r, s') \<longrightarrow>
        (\<exists>evs. events s' = events s @ evs \<and> listings (requests evs) \<le> 9
            \<and> length (sleeps evs) \<le> 8 \<and> set (sleeps evs) \<subseteq> {500})"
proof
  assume "cancel_all_orders B symbol s = (r, s')"
  then have "cancel_attempts B symbol 8 s = (r, s')" by (simp add: cancel_all_orders_def)
  from cancel_attempts_events [OF this]
  show "\<exists>evs. events s' = events s @ evs \<and> listings (requests evs) \<le> 9
      \<and> length (sleeps evs) \<le> 8 \<and> set (sleeps evs) \<subseteq> {500}"
    by simp
qed

lemma cancel_all_orders_logs_remaining:
  "listing_ok B \<and> cancel_all_orders B symbol s = (r, s') \<longrightarrow>
        r = Inr () \<and>
        (\<forall>code hdr os ms. B (calls s' - 1) Order_list = (Reply code hdr (Objs os), ms) \<and>
            filter (not_terminal symbol) os \<noteq> [] \<longrightarrow> last (events s') = still_open symbol os)"
proof
  assume h: "listing_ok B \<and> cancel_all_orders B symbol s = (r, s')"
  then have c: "cancel_attempts B symbol 8 s = (r, s')" by (simp add: cancel_all_orders_def)
  from h have ok: "listing_ok B" by simp
  from cancel_attempts_result [OF ok c]
  show "r = Inr () \<and>
        (\<forall>code hdr os ms. B (calls s' - 1) Order_list = (Reply code hdr (Objs os), ms) \<and>
            filter (not_terminal symbol) os \<noteq> [] \<longrightarrow> last (events s') = still_open symbol os)"
    by blast
qed

lemma cancel_all_orders_until_clear:
  "cancel_all_orders B symbol s = (Inr (), s') \<and> events s' = events s @ evs
     \<and> length (sleeps evs) < 8 \<longrightarrow>
        (\<exists>k. calls s \<le> k \<and> k < calls s' \<and> open_at B symbol k = Some [])"
proof
  assume h: "cancel_all_orders B symbol s = (Inr (), s') \<and> events s' = events s @ evs
     \<and> length (sleeps evs) < 8"
  then have "cancel_attempts B symbol 8 s = (Inr (), s')" by (simp add: cancel_all_orders_def)
  from cancel_attempts_until_clear [OF this, of evs] h
  show "\<exists>k. calls s \<le> k \<and> k < calls s' \<and> open_at B symbol k = Some []" by blast
qed

lemma cancel_all_orders_exhausts:
  "listing_ok B \<and> (\<forall>k. open_at B symbol k \<noteq> Some [])
     \<and> cancel_all_orders B symbol s = (r, s') \<and> events s' = events s @ evs \<longrightarrow>
        length (sleeps evs) = 8"
proof
  assume h: "listing_ok B \<and> (\<forall>k. open_at B symbol k \<noteq> Some [])
     \<and> cancel_all_orders B symbol s = (r, s') \<and> events s' = events s @ evs"
  with cancel_all_orders_logs_remaining [of B symbol s r s'] have r: "r = Inr ()" by blast
  from h cancel_all_orders_budget [of B symbol s r s'] have le: "length (sleeps evs) \<le> 8"
    by auto
  have "\<not> length (sleeps evs) < 8"
    using cancel_all_orders_until_clear [of B symbol s s' evs] h r by blast
  with le show "length (sleeps evs) = 8" by simp
qed

text \<open>
  Claim C5. At every attempt that finds orders of the symbol outside Filled, Cancelled and
  Rejected, the step sends a cancel for each of them that has an id, whatever bracket it
  came from, sleeps 500 ms and goes on from there with one attempt less; an attempt that
  finds none goes to the final check. A run lists at most nine times and sleeps at most
  eight times, 500 ms each. When the broker answers every listing, the run returns
  normally even if orders remain, and then its last act is the error log of the orders
  still open. The step does not stop early: a run that returns after fewer than eight
  sleeps has seen a listing with nothing left to cancel, and when no listing is ever
  clear the run sleeps exactly eight times.
\<close>

theorem cancel_step_cancels_all_and_rechecks:
  "(fetch B Order_list s = (Some orders, s1) \<and> cancel_attempts B symbol (Suc n) s = (r, s') \<longrightarrow>
      (filter (not_terminal symbol) orders = [] \<longrightarrow> final_check B symbol s1 = (r, s'))
      \<and> (filter (not_terminal symbol) orders \<noteq> [] \<longrightarrow>
           (\<exists>evs rest. events s' = events s @ Sent Order_list # evs @ Slept 500 # rest
              \<and> requests evs
                   = map Order_cancel (cancellable (filter (not_terminal symbol) orders)))
           \<and> (\<exists>evs s2. events s2 = events s @ Sent Order_list # evs @ [Slept 500]
              \<and> requests evs
                   = map Order_cancel (cancellable (filter (not_terminal symbol) orders))
              \<and> cancel_attempts B symbol n s2 = (r, s'))))
   \<and> (cancel_all_orders B symbol s = (r, s') \<longrightarrow>
        (\<exists>evs. events s' = events s @ evs \<and> listings (requests evs) \<le> 9
            \<and> length (sleeps evs) \<le> 8 \<and> set (sleeps evs) \<subseteq> {500}))
   \<and> (listing_ok B \<and> cancel_all_orders B symbol s = (r, s') \<longrightarrow>
        r = Inr () \<and>
        (\<forall>code hdr os ms. B (calls s' - 1) Order_list = (Reply code hdr (Objs os), ms) \<and>
            filter (not_terminal symbol) os \<noteq> [] \<longrightarrow> last (events s') = still_open symbol os))
   \<and> (cancel_all_orders B symbol s = (Inr (), s') \<and> events s' = events s @ evs
        \<and> length (sleeps evs) < 8 \<longrightarrow>
        (\<exists>k. calls s \<le> k \<and> k < calls s' \<and> open_at B symbol k = Some []))
   \<and> (listing_ok B \<and> (\<forall>k. open_at B symbol k \<noteq> Some [])
        \<and> cancel_all_orders B symbol s = (r, s') \<and> events s' = events s @ evs \<longrightarrow>
        length (sleeps evs) = 8)"
  by (intro conjI cancel_attempts_round_trace cancel_all_orders_budget
      cancel_all_orders_logs_remaining cancel_all_orders_until_clear cancel_all_orders_exhausts)

text \<open>A broker on which one order of the symbol never leaves Working.\<close>

definition resting :: "obj list" where
  "resting =
     [[(''id'', JInt 11), (''symbol'', JStr ''NQM5''), (''status'', JStr ''Working'')],
      [(''id'', JInt 12), (''symbol'', JStr ''ESM5''), (''status'', JStr ''Working'')],
      [(''id'', JInt 13), (''symbol'', JStr ''NQM5''), (''status'', JStr ''Filled'')]]"

definition stuck :: broker where
  "stuck k req = (Reply 200 None (Objs resting), 20)"

lemma stuck_round:
  "cancel_attempts stuck (JStr ''NQM5'') (Suc n) \<lparr>now = t, calls = k, events = evs\<rparr>
     = cancel_attempts stuck (JStr ''NQM5'') n
         \<lparr>now = t + 540, calls = k + 2,
          events = evs @ [Sent Order_list, Sent (Order_cancel (JInt 11)), Slept 500]\<rparr>"
  by (simp add: fetch_def send_def stuck_def resting_def items_def raises_for_status_def
      not_terminal_def dict_get_def sleep_ms_def Let_def add.commute)

lemma stuck_run:
  "cancel_all_orders stuck (JStr ''NQM5'') clean_io
     = (Inr (), \<lparr>now = 4340, calls = 17,
         events = concat (replicate 8
                    [Sent Order_list, Sent (Order_cancel (JInt 11)), Slept 500])
                  @ [Sent Order_list, Logged (Still_open [JInt 11] [JStr ''Working''])]\<rparr>)"
proof -
  have eight: "(8::nat) = Suc (Suc (Suc (Suc (Suc (Suc (Suc (Suc 0)))))))" by simp
  have fin: "final_check stuck (JStr ''NQM5'') \<lparr>now = t, calls = k, events = evs\<rparr>
      = (Inr (), \<lparr>now = t + 20, calls = Suc k,
           events = evs @ [Sent Order_list, Logged (Still_open [JInt 11] [JStr ''Working''])]\<rparr>)"
    for t k evs
    by (simp add: final_check_def fetch_def send_def stuck_def resting_def items_def
        raises_for_status_def not_terminal_def dict_get_def write_log_def Let_def)
  show ?thesis
    unfolding cancel_all_orders_def clean_io_def eight stuck_round
    by (simp add: fin)
qed

text \<open>A broker on which the first listing shows the orders and every later one is empty.\<close>

definition clears :: broker where
  "clears k req = (if k = 0 then Reply 200 None (Objs resting) else Reply 200 None (Objs []), 20)"

lemma clears_first:
  "cancel_attempts clears (JStr ''NQM5'') (Suc n) \<lparr>now = 0, calls = 0, events = []\<rparr>
     = cancel_attempts clears (JStr ''NQM5'') n
         \<lparr>now = 540, calls = Suc (Suc 0),
          events = [Sent Order_list, Sent (Order_cancel (JInt 11)), Slept 500]\<rparr>"
  by (simp add: fetch_def send_def clears_def resting_def items_def raises_for_status_def
      not_terminal_def dict_get_def sleep_ms_def Let_def)

lemma clears_second:
  "cancel_attempts clears (JStr ''NQM5'') (Suc n)
       \<lparr>now = 540, calls = Suc (Suc 0),
        events = [Sent Order_list, Sent (Order_cancel (JInt 11)), Slept 500]\<rparr>
     = (Inr (), \<lparr>now = 580, calls = Suc (Suc (Suc (Suc 0))),
         events = [Sent Order_list, Sent (Order_cancel (JInt 11)), Slept 500,
                   Sent Order_list, Sent Order_list]\<rparr>)"
  by (simp add: final_check_def fetch_def send_def clears_def items_def raises_for_status_def
      Let_def)

lemma clears_run:
  "cancel_all_orders clears (JStr ''NQM5'') clean_io
     = (Inr (), \<lparr>now = 580, calls = 4,
         events = [Sent Order_list, Sent (Order_cancel (JInt 11)), Slept 500,
                   Sent Order_list, Sent Order_list]\<rparr>)"
proof -
  have eight: "(8::nat) = Suc (Suc 6)" by simp
  show ?thesis
    unfolding cancel_all_orders_def clean_io_def eight clears_first clears_second by simp
qed

theorem cancel_step_cancels_all_and_rechecks_witness:
  "fst (cancel_all_orders stuck (JStr ''NQM5'') clean_io) = Inr ()
   \<and> last (events (snd (cancel_all_orders stuck (JStr ''NQM5'') clean_io)))
       = Logged (Still_open [JInt 11] [JStr ''Working''])
   \<and> (\<exists>evs rest. events (snd (cancel_all_orders stuck (JStr ''NQM5'') clean_io))
          = Sent Order_list # evs @ Slept 500 # rest
        \<and> requests evs = [Order_cancel (JInt 11)])
   \<and> (\<exists>evs s2. events s2 = Sent Order_list # evs @ [Slept 500]
        \<and> requests evs = [Order_cancel (JInt 11)]
        \<and> cancel_attempts stuck (JStr ''NQM5'') 7 s2
             = cancel_all_orders stuck (JStr ''NQM5'') clean_io)
   \<and> (\<exists>evs. events (snd (cancel_all_orders stuck (JStr ''NQM5'') clean_io)) = evs
        \<and> listings (requests evs) \<le> 9 \<and> length (sleeps evs) \<le> 8 \<and> set (sleeps evs) \<subseteq> {500})
   \<and> length (sleeps (events (snd (cancel_all_orders stuck (JStr ''NQM5'') clean_io)))) = 8
   \<and> length (sleeps (events (snd (cancel_all_orders clears (JStr ''NQM5'') clean_io)))) = 1
   \<and> (\<exists>k. k < calls (snd (cancel_all_orders clears (JStr ''NQM5'') clean_io))
        \<and> open_at clears (JStr ''NQM5'') k = Some [])"
proof -
  let ?s' = "snd (cancel_all_orders stuck (JStr ''NQM5'') clean_io)"
  let ?c' = "snd (cancel_all_orders clears (JStr ''NQM5'') clean_io)"
  have r1: "fst (cancel_all_orders stuck (JStr ''NQM5'') clean_io) = Inr ()"
    by (simp add: stuck_run)
  then have run: "cancel_all_orders stuck (JStr ''NQM5'') clean_io = (Inr (), ?s')"
    by (metis prod.collapse)
  have run7: "cancel_attempts stuck (JStr ''NQM5'') (Suc 7) clean_io = (Inr (), ?s')"
    using run by (simp add: cancel_all_orders_def)
  have f: "fetch stuck Order_list clean_io
      = (Some resting, \<lparr>now = 20, calls = 1, events = [Sent Order_list]\<rparr>)"
    by (simp add: fetch_def send_def stuck_def items_def raises_for_status_def clean_io_def)
  have op: "filter (not_terminal (JStr ''NQM5'')) resting \<noteq> []"
    and can: "cancellable (filter (not_terminal (JStr ''NQM5'')) resting) = [JInt 11]"
    by (simp_all add: resting_def not_terminal_def dict_get_def cancellable_def)
  have ok: "listing_ok stuck"
    by (simp add: listing_ok_def stuck_def raises_for_status_def)
  have fin: "stuck (calls ?s' - 1) Order_list = (Reply 200 None (Objs resting), 20)"
    by (simp add: stuck_def)
  have so: "still_open (JStr ''NQM5'') resting = Logged (Still_open [JInt 11] [JStr ''Working''])"
    by (simp add: still_open_def resting_def not_terminal_def dict_get_def)
  have never: "\<forall>k. open_at stuck (JStr ''NQM5'') k \<noteq> Some []"
    using op by (simp add: open_at_def stuck_def items_def raises_for_status_def)
  have ev0: "events ?s' = events clean_io @ events ?s'" by (simp add: clean_io_def)
  note t = cancel_step_cancels_all_and_rechecks
    [where B = stuck and s = clean_io and symbol = "JStr ''NQM5''" and orders = resting
       and ?s1.0 = "\<lparr>now = 20, calls = 1, events = [Sent Order_list]\<rparr>" and n = 7
       and r = "Inr ()" and s' = ?s' and evs = "events ?s'"]
  from t f run7 op can have a:
    "\<exists>evs rest. events ?s' = Sent Order_list # evs @ Slept 500 # rest
        \<and> requests evs = [Order_cancel (JInt 11)]"
    by (simp add: clean_io_def)
  from t f run7 op can have a2:
    "\<exists>evs s2. events s2 = Sent Order_list # evs @ [Slept 500]
        \<and> requests evs = [Order_cancel (JInt 11)]
        \<and> cancel_attempts stuck (JStr ''NQM5'') 7 s2 = (Inr (), ?s')"
    by (simp add: clean_io_def)
  from t run have b:
    "\<exists>evs. events ?s' = evs
        \<and> listings (requests evs) \<le> 9 \<and> length (sleeps evs) \<le> 8 \<and> set (sleeps evs) \<subseteq> {500}"
    by (simp add: clean_io_def)
  from t ok run fin op so have c:
    "last (events ?s') = Logged (Still_open [JInt 11] [JStr ''Working''])"
    by metis
  from t ok never run ev0 have d: "length (sleeps (events ?s')) = 8"
    by blast
  have crun: "cancel_all_orders clears (JStr ''NQM5'') clean_io = (Inr (), ?c')"
    by (simp add: clears_run)
  have cev: "events ?c' = events clean_io @ events ?c'" by (simp add: clean_io_def)
  have one: "length (sleeps (events ?c')) = 1" by (simp add: clears_run)
  then have few: "length (sleeps (events ?c')) < 8" by simp
  note u = cancel_step_cancels_all_and_rechecks
    [where B = clears and s = clean_io and symbol = "JStr ''NQM5''"
       and s' = ?c' and evs = "events ?c'"]
  from u crun cev few have e:
    "\<exists>k. k < calls ?c' \<and> open_at clears (JStr ''NQM5'') k = Some []"
    by blast
  show ?thesis using r1 a a2 run b c d one e by simp
qed


section \<open>Bracket planner and webhook handlers (main\_fixed.py, enhanced\_main.py)\<close>

text \<open>An entry of \<^verbatim>\<open>order_plan\<close>; a key the dict literal leaves out reads as \<open>JNull\<close>
  through \<^verbatim>\<open>order.get\<close>.\<close>

record planned =
  order_label :: label
  order_action :: string
  order_type :: string
  order_price :: jval
  order_stopPrice :: jval
  order_qty :: int

type_synonym tracking = "label \<Rightarrow> jval"

definition opposite :: "string \<Rightarrow> string" where
  "opposite action = (if lower action = ''buy'' then ''Sell'' else ''Buy'')"

definition stop_order :: "client \<Rightarrow> jval \<Rightarrow> string \<Rightarrow> jval \<Rightarrow> obj" where
  "stop_order c symbol action stop_price =
     [(''accountId'', account_id c), (''symbol'', symbol),
      (''action'', JStr (opposite action)), (''orderQty'', JInt 1),
      (''orderType'', JStr ''Stop''), (''stopPrice'', stop_price),
      (''timeInForce'', JStr ''GTC''), (''isAutomated'', JBool True)]"

text \<open>
  The plan of main\_fixed.py (lines 311-358): the take-profit first, then the entry, and
  the stop kept aside as \<^verbatim>\<open>stop_order_data\<close>. Prices are copied from the alert.
\<close>

definition take_profit :: "string \<Rightarrow> jval \<Rightarrow> planned" where
  "take_profit action p =
     \<lparr>order_label = TP1, order_action = opposite action, order_type = ''Limit'',
      order_price = p, order_stopPrice = JNull, order_qty = 1\<rparr>"

definition entry :: "string \<Rightarrow> jval \<Rightarrow> planned" where
  "entry action p =
     \<lparr>order_label = ENTRY, order_action = action, order_type = ''Stop'',
      order_price = JNull, order_stopPrice = p, order_qty = 1\<rparr>"

lemma planned_fields [simp]:
  "order_label (take_profit action p) = TP1" "order_label (entry action p) = ENTRY"
  "order_action (take_profit action p) = opposite action" "order_action (entry action p) = action"
  "order_type (take_profit action p) = ''Limit''" "order_type (entry action p) = ''Stop''"
  "order_price (take_profit action p) = p" "order_price (entry action p) = JNull"
  "order_stopPrice (take_profit action p) = JNull" "order_stopPrice (entry action p) = p"
  "order_qty (take_profit action p) = 1" "order_qty (entry action p) = 1"
  by (simp_all add: take_profit_def entry_def)

definition plan_fixed ::
  "client \<Rightarrow> jval \<Rightarrow> string \<Rightarrow> obj \<Rightarrow> io \<Rightarrow> planned list \<times> obj option \<times> io" where
  "plan_fixed c symbol action data s =
     (let (tp, s1) = (if has_key data ''T1''
                      then ([take_profit action (dict_get data ''T1'')], s)
                      else ([], write_log No_take_profit s));
          (en, s2) = (if has_key data ''PRICE''
                      then ([entry action (dict_get data ''PRICE'')], s1)
                      else ([], write_log No_entry_price s1));
          (st, s3) = (if has_key data ''STOP''
                      then (Some (stop_order c symbol action (dict_get data ''STOP'')), s2)
                      else (None, write_log No_stop_price s2))
      in (tp @ en, st, s3))"

text \<open>The payload built for one planned order (lines 375-385).\<close>

definition order_payload :: "client \<Rightarrow> jval \<Rightarrow> planned \<Rightarrow> obj" where
  "order_payload c symbol order =
     [(''accountId'', account_id c), (''symbol'', symbol),
      (''action'', JStr (order_action order)), (''orderQty'', JInt (order_qty order)),
      (''orderType'', JStr (order_type order)), (''price'', order_price order),
      (''stopPrice'', order_stopPrice order),
      (''timeInForce'', JStr ''GTC''), (''isAutomated'', JBool True)]"

text \<open>
  \<^verbatim>\<open>for order in order_plan\<close>: an order that fails to place, or whose response has no
  \<^verbatim>\<open>.get\<close>, is logged and skipped.
\<close>

fun execute_plan ::
  "broker \<Rightarrow> env \<Rightarrow> jval \<Rightarrow> planned list \<Rightarrow> tracking \<Rightarrow> (label \<times> body) list \<Rightarrow> client \<Rightarrow> io
     \<Rightarrow> tracking \<times> (label \<times> body) list \<times> client \<times> io" where
  "execute_plan B e symbol [] t results c s = (t, results, c, s)"
| "execute_plan B e symbol (order # rest) t results c s =
     (case place_order B e symbol (order_action order) (order_qty order)
             (Some (order_payload c symbol order)) c s of
        (Inl err, c1, s1) \<Rightarrow>
          execute_plan B e symbol rest t results c1 (write_log (Place_failed (order_label order)) s1)
      | (Inr (Obj result), c1, s1) \<Rightarrow>
          execute_plan B e symbol rest (t(order_label order := dict_get result ''id''))
            (results @ [(order_label order, Obj result)]) c1 s1
      | (Inr _, c1, s1) \<Rightarrow>
          execute_plan B e symbol rest t results c1 (write_log (Place_failed (order_label order)) s1))"

text \<open>
  Scanning a position listing for the symbol: \<^verbatim>\<open>abs(pos.get("netPos", 0)) > 0\<close> is read
  only when the symbol matches, and raises on a value that has no absolute value.
\<close>

definition net_open :: "obj \<Rightarrow> bool option" where
  "net_open pos =
     (case map_of pos ''netPos'' of
        None \<Rightarrow> Some False
      | Some (JInt i) \<Rightarrow> Some (i \<noteq> 0)
      | Some (JFloat f) \<Rightarrow> Some (f \<noteq> 0)
      | Some (JBool b) \<Rightarrow> Some b
      | Some _ \<Rightarrow> None)"

fun has_position :: "jval \<Rightarrow> obj list \<Rightarrow> bool option" where
  "has_position symbol [] = Some False"
| "has_position symbol (pos # rest) =
     (if dict_get pos ''symbol'' = symbol then
        (case net_open pos of
           None \<Rightarrow> None
         | Some True \<Rightarrow> Some True
         | Some False \<Rightarrow> has_position symbol rest)
      else has_position symbol rest)"

definition map_symbol :: "jval \<Rightarrow> jval" where
  "map_symbol symbol =
     (if symbol = JStr ''CME_MINI:NQ1!'' \<or> symbol = JStr ''NQ1!'' then JStr ''NQM5'' else symbol)"

datatype answer =
    Skipped string
  | Success "(label \<times> body) list" tracking "obj option"

definition internal_error :: exn where
  "internal_error = HTTPException 500 ''Internal server error''"

definition untracked :: tracking where
  "untracked = (\<lambda>_. JNull)"

text \<open>
  The handler of main\_fixed.py from line 253 on, for an alert that passed the parsing and
  the duplicate check. Any exception becomes the 500 answer. The monitor task is started
  with the tracking and the stop data of a \<open>Success\<close>.
\<close>

definition reconcile_fixed :: "broker \<Rightarrow> jval \<Rightarrow> io \<Rightarrow> (exn + unit) \<times> io" where
  "reconcile_fixed B symbol s =
     (case cancel_all_orders_fixed B symbol s of
        (Inl err, s1) \<Rightarrow> (Inl err, s1)
      | (Inr _, s1) \<Rightarrow>
          (case flatten_position B symbol s1 of
             (Inl err, s2) \<Rightarrow> (Inl err, s2)
           | (Inr _, s2) \<Rightarrow> wait_until_no_open_orders B symbol 10000 s2))"

text \<open>Lines 261-288: the position listing read for the direction check, then the
  flattening.\<close>

definition prepare_fixed :: "broker \<Rightarrow> jval \<Rightarrow> io \<Rightarrow> (exn + unit) \<times> io" where
  "prepare_fixed B symbol s =
     (case fetch B Position_list s of
        (None, s1) \<Rightarrow> (Inl (Error ''position list''), s1)
      | (Some positions, s1) \<Rightarrow>
          (case has_position symbol positions of
             None \<Rightarrow> (Inl (Error ''TypeError''), s1)
           | Some _ \<Rightarrow> reconcile_fixed B symbol s1))"

text \<open>Lines 290-309: the two fresh listings; \<open>Inr (Some detail)\<close> is the skipped answer.\<close>

definition verify_flat :: "broker \<Rightarrow> jval \<Rightarrow> io \<Rightarrow> (exn + string option) \<times> io" where
  "verify_flat B symbol s =
     (case fetch B Position_list s of
        (None, s1) \<Rightarrow> (Inl (Error ''position list''), s1)
      | (Some positions, s1) \<Rightarrow>
          (case has_position symbol positions of
             None \<Rightarrow> (Inl (Error ''TypeError''), s1)
           | Some True \<Rightarrow>
               (Inr (Some ''Position not flat after flatten.''), write_log Position_not_flat s1)
           | Some False \<Rightarrow>
               (case fetch B Order_list s1 of
                  (None, s2) \<Rightarrow> (Inl (Error ''order list''), s2)
                | (Some orders, s2) \<Rightarrow>
                    if filter (working symbol) orders \<noteq> []
                    then (Inr (Some ''Open orders still exist after cancel.''),
                          write_log Open_orders_remain s2)
                    else (Inr None, s2))))"

definition webhook_fixed ::
  "broker \<Rightarrow> env \<Rightarrow> obj \<Rightarrow> client \<Rightarrow> io \<Rightarrow> (exn + answer) \<times> client \<times> io" where
  "webhook_fixed B e data c s =
     (case (map_of data ''action'', map_of data ''symbol'') of
        (Some (JStr a), Some raw_symbol) \<Rightarrow>
          let action = capitalize a; symbol = map_symbol raw_symbol in
          (case prepare_fixed B symbol s of
             (Inl err, s1) \<Rightarrow> (Inl internal_error, c, s1)
           | (Inr _, s1) \<Rightarrow>
               (case verify_flat B symbol s1 of
                  (Inl err, s2) \<Rightarrow> (Inl internal_error, c, s2)
                | (Inr (Some detail), s2) \<Rightarrow> (Inr (Skipped detail), c, s2)
                | (Inr None, s2) \<Rightarrow>
                    (case plan_fixed c symbol action data s2 of
                       (order_plan, stop_order_data, s3) \<Rightarrow>
                         (case execute_plan B e symbol order_plan untracked [] c s3 of
                            (t, results, c4, s4) \<Rightarrow>
                              (Inr (Success results t stop_order_data), c4, s4)))))
      | _ \<Rightarrow> (Inl internal_error, c, s))"

text \<open>
  The handler of enhanced\_main.py from line 309 on. It keeps the direction of the last
  alert it acted on for each symbol and ignores a repeat of that direction. It flattens
  when the listing shows a position, runs the cancel step and the wait, and then plans:
  what the wait found is not looked at. \<^verbatim>\<open>float(x)\<close> on a string is a parameter.
\<close>

definition to_float :: "(string \<Rightarrow> rat option) \<Rightarrow> jval \<Rightarrow> jval option" where
  "to_float py_float v =
     (case v of
        JNull \<Rightarrow> None
      | JBool b \<Rightarrow> Some (JFloat (if b then 1 else 0))
      | JInt i \<Rightarrow> Some (JFloat (of_int i))
      | JFloat f \<Rightarrow> Some (JFloat f)
      | JStr x \<Rightarrow> map_option JFloat (py_float x))"

text \<open>The plan of enhanced\_main.py (lines 360-413); \<open>None\<close> when a conversion raises,
  with the warnings that were logged before it.\<close>

definition plan_enhanced ::
  "(string \<Rightarrow> rat option) \<Rightarrow> client \<Rightarrow> jval \<Rightarrow> string \<Rightarrow> obj \<Rightarrow> io
     \<Rightarrow> (planned list \<times> obj option) option \<times> io" where
  "plan_enhanced py_float c symbol action data s =
     (case (if has_key data ''T1''
            then (map_option (\<lambda>p. [take_profit action p])
                    (to_float py_float (dict_get data ''T1'')), s)
            else (Some [], write_log No_take_profit s)) of
        (None, s1) \<Rightarrow> (None, s1)
      | (Some tp, s1) \<Rightarrow>
          (case (if has_key data ''PRICE''
                 then (map_option (\<lambda>p. [entry action p])
                         (to_float py_float (dict_get data ''PRICE'')), s1)
                 else (Some [], write_log No_entry_price s1)) of
             (None, s2) \<Rightarrow> (None, s2)
           | (Some en, s2) \<Rightarrow>
               (case (if has_key data ''STOP''
                      then (map_option (\<lambda>p. Some (stop_order c symbol action p))
                              (to_float py_float (dict_get data ''STOP'')), s2)
                      else (Some None, write_log No_stop_price s2)) of
                  (None, s3) \<Rightarrow> (None, s3)
                | (Some st, s3) \<Rightarrow> (Some (tp @ en, st), s3))))"

datatype answer_enhanced =
    Ignored
  | Planned "(label \<times> body) list" tracking "obj option"

definition reconcile_enhanced :: "broker \<Rightarrow> jval \<Rightarrow> io \<Rightarrow> (exn + unit) \<times> io" where
  "reconcile_enhanced B symbol s =
     (case fetch B Position_list s of
        (None, s1) \<Rightarrow> (Inl (Error ''position list''), s1)
      | (Some positions, s1) \<Rightarrow>
          (case has_position symbol positions of
             None \<Rightarrow> (Inl (Error ''TypeError''), s1)
           | Some found \<Rightarrow>
               (case (if found then flatten_position B symbol s1 else (Inr (), s1)) of
                  (Inl err, s2) \<Rightarrow> (Inl err, s2)
                | (Inr _, s2) \<Rightarrow>
                    (case cancel_all_orders B symbol s2 of
                       (Inl err, s3) \<Rightarrow> (Inl err, s3)
                     | (Inr _, s3) \<Rightarrow> wait_until_no_open_orders B symbol 10000 s3))))"

definition webhook_enhanced ::
  "(string \<Rightarrow> rat option) \<Rightarrow> broker \<Rightarrow> env \<Rightarrow> obj \<Rightarrow> (jval \<rightharpoonup> string) \<Rightarrow> client \<Rightarrow> io
     \<Rightarrow> (exn + answer_enhanced) \<times> (jval \<rightharpoonup> string) \<times> client \<times> io" where
  "webhook_enhanced py_float B e data last_alert c s =
     (if truthy (dict_get data ''symbol'') \<and> truthy (dict_get data ''action'')
      then
        (case dict_get data ''action'' of
           JStr action \<Rightarrow>
             let symbol = map_symbol (dict_get data ''symbol''); direction = lower action in
             if last_alert symbol = Some direction then (Inr Ignored, last_alert, c, s)
             else
               let last_alert1 = last_alert(symbol \<mapsto> direction) in
               (case reconcile_enhanced B symbol s of
                  (Inl err, s1) \<Rightarrow> (Inl internal_error, last_alert1, c, s1)
                | (Inr _, s1) \<Rightarrow>
                    (case plan_enhanced py_float c symbol action data s1 of
                       (None, s2) \<Rightarrow> (Inl internal_error, last_alert1, c, s2)
                     | (Some (order_plan, stop_order_data), s2) \<Rightarrow>
                         (case execute_plan B e symbol order_plan untracked [] c s2 of
                            (t, results, c3, s3) \<Rightarrow>
                              (Inr (Planned results t stop_order_data), last_alert1, c3, s3))))
         | _ \<Rightarrow> (Inl internal_error, last_alert, c, s))
      else (Inl internal_error, last_alert, c, s))"

subsection \<open>What a run adds to the trace\<close>

text \<open>\<open>adds s s' evs\<close>: the run from \<open>s\<close> to \<open>s'\<close> appended \<open>evs\<close>, one call for each request.\<close>

definition adds :: "io \<Rightarrow> io \<Rightarrow> event list \<Rightarrow> bool" where
  "adds s s' evs = (events s' = events s @ evs \<and> calls s' = calls s + length (requests evs))"

lemma adds_refl [simp]: "adds s s []"
  by (simp add: adds_def)

lemma adds_trans: "adds s s1 xs \<Longrightarrow> adds s1 s2 ys \<Longrightarrow> adds s s2 (xs @ ys)"
  by (simp add: adds_def)

lemma adds_send: "send B req s = (r, s1) \<Longrightarrow> adds s s1 [Sent req]"
  by (auto simp: adds_def send_def split: prod.splits)

lemma adds_fetch: "fetch B req s = (r, s1) \<Longrightarrow> adds s s1 [Sent req]"
  by (auto simp: fetch_def split: prod.splits reply.splits dest: adds_send)

lemma adds_write_log [simp]: "adds s (write_log l s) [Logged l]"
  by (simp add: adds_def write_log_def)

lemma adds_sleep [simp]: "adds s (sleep_ms d s) [Slept d]"
  by (simp add: adds_def sleep_ms_def)

lemma adds_post: "post_ignoring_status B req s = (r, s1) \<Longrightarrow> adds s s1 [Sent req]"
  by (auto simp: post_ignoring_status_def split: prod.splits reply.splits dest: adds_send)

lemma adds_wait_loop:
  "wait_loop B symbol start timeout s = (r, s') \<Longrightarrow>
     \<exists>evs. adds s s' evs \<and> set (requests evs) \<subseteq> {Order_list}"
proof (induction B symbol start timeout s rule: wait_loop.induct)
  case (1 B symbol start timeout s)
  obtain f s1 where f: "fetch B Order_list s = (f, s1)"
    by (cases "fetch B Order_list s")
  then have a1: "adds s s1 [Sent Order_list]" by (rule adds_fetch)
  show ?case
  proof (cases f)
    case None
    with "1.prems" f have "s' = s1" by (simp add: wait_loop.simps [of B symbol start timeout s])
    with a1 show ?thesis by (intro exI [of _ "[Sent Order_list]"]) simp
  next
    case (Some orders)
    show ?thesis
    proof (cases "filter (working symbol) orders = []")
      case True
      with "1.prems" f Some have "s' = s1"
        by (simp add: wait_loop.simps [of B symbol start timeout s])
      with a1 show ?thesis by (intro exI [of _ "[Sent Order_list]"]) simp
    next
      case False
      show ?thesis
      proof (cases "now s1 - start > timeout")
        case True
        with "1.prems" f Some False have "s' = write_log (Timeout_waiting_for_orders symbol) s1"
          by (simp add: wait_loop.simps [of B symbol start timeout s])
        then have "adds s1 s' [Logged (Timeout_waiting_for_orders symbol)]" by simp
        with a1 have "adds s s' ([Sent Order_list] @ [Logged (Timeout_waiting_for_orders symbol)])"
          by (rule adds_trans)
        then show ?thesis
          by (intro exI [of _ "[Sent Order_list] @ [Logged (Timeout_waiting_for_orders symbol)]"])
            simp
      next
        case nt: False
        with "1.prems" f Some False have
          r: "wait_loop B symbol start timeout (sleep_ms 500 s1) = (r, s')"
          by (simp add: wait_loop.simps [of B symbol start timeout s])
        from "1.IH" [OF f [symmetric] Some False nt r] obtain evs where
          evs: "adds (sleep_ms 500 s1) s' evs" "set (requests evs) \<subseteq> {Order_list}"
          by blast
        have "adds s (sleep_ms 500 s1) ([Sent Order_list] @ [Slept 500])"
          using a1 adds_sleep by (rule adds_trans)
        then have "adds s s' (([Sent Order_list] @ [Slept 500]) @ evs)"
          using evs(1) by (rule adds_trans)
        with evs(2) show ?thesis
          by (intro exI [of _ "([Sent Order_list] @ [Slept 500]) @ evs"]) simp
      qed
    qed
  qed
qed

lemma adds_reconcile_fixed:
  assumes "reconcile_fixed B symbol s = (r, s')"
  shows "\<exists>evs. adds s s' evs \<and>
     set (requests evs) \<subseteq> {Cancel_all_orders symbol, Close_position symbol, Order_list}"
proof -
  obtain r1 s1 where c: "cancel_all_orders_fixed B symbol s = (r1, s1)"
    by (cases "cancel_all_orders_fixed B symbol s")
  then have a1: "adds s s1 [Sent (Cancel_all_orders symbol)]"
    unfolding cancel_all_orders_fixed_def by (rule adds_post)
  show ?thesis
  proof (cases r1)
    case (Inl err)
    with assms c have "s' = s1" by (simp add: reconcile_fixed_def)
    with a1 show ?thesis by (intro exI [of _ "[Sent (Cancel_all_orders symbol)]"]) simp
  next
    case (Inr u)
    obtain r2 s2 where f: "flatten_position B symbol s1 = (r2, s2)"
      by (cases "flatten_position B symbol s1")
    then have a2: "adds s1 s2 [Sent (Close_position symbol)]"
      unfolding flatten_position_def by (rule adds_post)
    have a12: "adds s s2 ([Sent (Cancel_all_orders symbol)] @ [Sent (Close_position symbol)])"
      using a1 a2 by (rule adds_trans)
    show ?thesis
    proof (cases r2)
      case (Inl err)
      with assms c f Inr have "s' = s2" by (simp add: reconcile_fixed_def)
      with a12 show ?thesis
        by (intro exI [of _ "[Sent (Cancel_all_orders symbol)] @ [Sent (Close_position symbol)]"])
          simp
    next
      case inr2: (Inr u2)
      with assms c f Inr have "wait_loop B symbol (now s2) 10000 s2 = (r, s')"
        by (simp add: reconcile_fixed_def wait_until_no_open_orders_def)
      from adds_wait_loop [OF this] obtain evs where
        evs: "adds s2 s' evs" "set (requests evs) \<subseteq> {Order_list}" by blast
      have "adds s s'
          (([Sent (Cancel_all_orders symbol)] @ [Sent (Close_position symbol)]) @ evs)"
        using a12 evs(1) by (rule adds_trans)
      with evs(2) show ?thesis
        by (intro exI [of _
              "([Sent (Cancel_all_orders symbol)] @ [Sent (Close_position symbol)]) @ evs"])
          auto
    qed
  qed
qed

definition placements :: "event list \<Rightarrow> obj list" where
  "placements evs = concat (map (\<lambda>ev. case ev of Sent (Place_order p) \<Rightarrow> [p] | _ \<Rightarrow> []) evs)"

lemma placements_append [simp]: "placements (xs @ ys) = placements xs @ placements ys"
  by (simp add: placements_def)

lemma placements_simps [simp]:
  "placements [] = []"
  "placements (Sent (Place_order p) # evs) = p # placements evs"
  "placements (Slept d # evs) = placements evs"
  "placements (Logged l # evs) = placements evs"
  "placements (Observed lb st # evs) = placements evs"
  "placements (Sent Auth_token_request # evs) = placements evs"
  "placements (Sent Account_list # evs) = placements evs"
  "placements (Sent (Place_oso q b1) # evs) = placements evs"
  "placements (Sent (Cancel_order_request i) # evs) = placements evs"
  "placements (Sent (Order_cancel i) # evs) = placements evs"
  "placements (Sent (Cancel_all_orders y) # evs) = placements evs"
  "placements (Sent Order_list # evs) = placements evs"
  "placements (Sent (Order_item i) # evs) = placements evs"
  "placements (Sent Position_list # evs) = placements evs"
  "placements (Sent (Close_position y) # evs) = placements evs"
  by (simp_all add: placements_def)

lemma placements_none:
  "(\<forall>p. Place_order p \<notin> set (requests evs)) \<Longrightarrow> placements evs = []"
proof (induction evs)
  case Nil
  show ?case by simp
next
  case (Cons ev evs)
  then have "placements evs = []" by (cases ev) auto
  moreover have "placements [ev] = []"
    using Cons.prems by (cases ev) (auto simp: placements_def split: request.splits)
  ultimately show ?case
    using placements_append [of "[ev]" evs] by simp
qed

lemma placements_requests:
  "set (requests evs) \<subseteq> R \<Longrightarrow> (\<forall>p. Place_order p \<notin> R) \<Longrightarrow> placements evs = []"
  by (rule placements_none) auto

lemma prepare_fixed_adds:
  assumes "prepare_fixed B symbol s = (r, s')"
  shows "\<exists>evs. adds s s' evs \<and> placements evs = []"
proof -
  obtain f s1 where f: "fetch B Position_list s = (f, s1)"
    by (cases "fetch B Position_list s")
  then have a1: "adds s s1 [Sent Position_list]" by (rule adds_fetch)
  have p1: "placements [Sent Position_list] = []" by (simp add: placements_def)
  show ?thesis
  proof (cases "\<exists>ps found. f = Some ps \<and> has_position symbol ps = Some found")
    case False
    with assms f have "s' = s1"
      by (auto simp: prepare_fixed_def split: option.splits)
    with a1 p1 show ?thesis by blast
  next
    case True
    with assms f have "reconcile_fixed B symbol s1 = (r, s')"
      by (auto simp: prepare_fixed_def)
    from adds_reconcile_fixed [OF this] obtain evs where
      evs: "adds s1 s' evs"
        "set (requests evs) \<subseteq> {Cancel_all_orders symbol, Close_position symbol, Order_list}"
      by blast
    have "placements evs = []"
      using evs(2) by (rule placements_requests) simp
    moreover have "adds s s' ([Sent Position_list] @ evs)"
      using a1 evs(1) by (rule adds_trans)
    ultimately show ?thesis using p1 by (intro exI [of _ "[Sent Position_list] @ evs"]) simp
  qed
qed

lemma verify_flat_adds:
  "verify_flat B symbol s = (r, s') \<Longrightarrow> \<exists>evs. adds s s' evs \<and> placements evs = []"
  by (auto simp: verify_flat_def adds_def write_log_def placements_def
      split: prod.splits option.splits bool.splits if_splits
      dest!: adds_fetch)

lemma fetch_reply:
  "fetch B req s = (Some xs, s1) \<Longrightarrow>
     \<exists>code hdr b ms. B (calls s) req = (Reply code hdr b, ms) \<and> items b = Some xs"
  by (auto simp: fetch_def send_def split: prod.splits reply.splits if_splits)

lemma verify_flat_passed:
  assumes "verify_flat B symbol s = (Inr None, s')"
  shows "adds s s' [Sent Position_list, Sent Order_list]
    \<and> (\<exists>code1 hdr1 positions ms1 code2 hdr2 orders ms2 ps os.
          B (calls s) Position_list = (Reply code1 hdr1 positions, ms1)
        \<and> B (Suc (calls s)) Order_list = (Reply code2 hdr2 orders, ms2)
        \<and> items positions = Some ps \<and> has_position symbol ps = Some False
        \<and> items orders = Some os \<and> filter (working symbol) os = [])"
proof -
  obtain f s1 where f: "fetch B Position_list s = (f, s1)"
    by (cases "fetch B Position_list s")
  with assms obtain ps where ps: "f = Some ps" "has_position symbol ps = Some False"
    by (auto simp: verify_flat_def split: option.splits bool.splits prod.splits if_splits)
  obtain g s2 where g: "fetch B Order_list s1 = (g, s2)"
    by (cases "fetch B Order_list s1")
  with assms f ps obtain os where os: "g = Some os" "filter (working symbol) os = []" "s' = s2"
    by (auto simp: verify_flat_def split: option.splits if_splits)
  have a1: "adds s s1 [Sent Position_list]" using f by (rule adds_fetch)
  have a2: "adds s1 s2 [Sent Order_list]" using g by (rule adds_fetch)
  have c1: "calls s1 = Suc (calls s)" using a1 by (simp add: adds_def)
  from fetch_reply [of B Position_list s ps s1] f ps obtain code1 hdr1 positions ms1 where
    r1: "B (calls s) Position_list = (Reply code1 hdr1 positions, ms1)" "items positions = Some ps"
    by auto
  from fetch_reply [of B Order_list s1 os s2] g os obtain code2 hdr2 orders ms2 where
    r2: "B (calls s1) Order_list = (Reply code2 hdr2 orders, ms2)" "items orders = Some os"
    by auto
  have "adds s s2 ([Sent Position_list] @ [Sent Order_list])"
    using a1 a2 by (rule adds_trans)
  then have "adds s s' [Sent Position_list, Sent Order_list]"
    using os(3) by simp
  then show ?thesis
    using r1 r2 ps(2) os(2) c1 by auto
qed

definition grows :: "io \<Rightarrow> io \<Rightarrow> bool" where
  "grows s s' = (\<exists>evs. events s' = events s @ evs)"

lemma grows_refl [simp]: "grows s s"
  by (simp add: grows_def)

lemma grows_trans: "grows s s1 \<Longrightarrow> grows s1 s2 \<Longrightarrow> grows s s2"
  by (auto simp: grows_def)

lemma grows_send: "send B req s = (r, s1) \<Longrightarrow> grows s s1"
  by (auto simp: grows_def send_def split: prod.splits)

lemma grows_steps [simp]:
  "grows s (write_log l s)" "grows s (sleep_ms d s)" "grows s (sleep_seconds n s)"
  by (simp_all add: grows_def write_log_def sleep_ms_def sleep_seconds_def)

lemma auth_attempt_grows: "auth_attempt B e c s = (a, c1, s1) \<Longrightarrow> grows s s1"
  by (auto simp: auth_attempt_def Let_def
      split: prod.splits reply.splits if_splits body.splits option.splits
      dest!: grows_send intro: grows_trans)

lemma authenticate_loop_grows:
  "authenticate_loop B e as c s = (r, c', s') \<Longrightarrow> grows s s'"
proof (induction as arbitrary: c s)
  case Nil
  then show ?case by auto
next
  case (Cons a as)
  obtain outcome c1 s1 where att: "auth_attempt B e c s = (outcome, c1, s1)"
    by (cases "auth_attempt B e c s")
  then have g1: "grows s s1" by (rule auth_attempt_grows)
  show ?case
  proof (cases "\<exists>hdr n. outcome = Status_error 429 hdr \<and> retry_after hdr a = Some n")
    case True
    then obtain hdr n where h: "outcome = Status_error 429 hdr" "retry_after hdr a = Some n"
      by blast
    let ?s2 = "sleep_seconds n (write_log (Rate_limited n) s1)"
    have "authenticate_loop B e as c1 ?s2 = (r, c', s')"
      using Cons.prems att h by simp
    then have "grows ?s2 s'" by (rule Cons.IH)
    moreover have "grows s1 ?s2"
      by (rule grows_trans [of _ "write_log (Rate_limited n) s1"]) simp_all
    ultimately show ?thesis using g1 by (blast intro: grows_trans)
  next
    case False
    then have "s' = s1"
      using Cons.prems att
      by (cases outcome) (auto split: if_splits option.splits)
    with g1 show ?thesis by simp
  qed
qed

lemma ensure_token_grows: "ensure_token B e c s = (r, c1, s1) \<Longrightarrow> grows s s1"
  by (auto simp: ensure_token_def authenticate_def split: if_splits
      dest: authenticate_loop_grows)

lemma place_order_grows:
  assumes "place_order B e symbol action q d c s = (r, c1, s1)"
  shows "grows s s1"
proof -
  obtain r0 c0 s0 where t: "ensure_token B e c s = (r0, c0, s0)"
    by (cases "ensure_token B e c s") auto
  then have g0: "grows s s0" by (rule ensure_token_grows)
  have "grows s0 s1"
    using assms t
    by (auto simp: place_order_def Let_def
        split: sum.splits prod.splits reply.splits if_splits dest!: grows_send)
  with g0 show ?thesis by (rule grows_trans)
qed

lemma execute_plan_grows:
  "execute_plan B e symbol plan t results c s = (t', results', c', s') \<Longrightarrow> grows s s'"
proof (induction plan arbitrary: t results c s)
  case Nil
  then show ?case by simp
next
  case (Cons order rest)
  obtain r c1 s1 where p:
    "place_order B e symbol (order_action order) (order_qty order)
       (Some (order_payload c symbol order)) c s = (r, c1, s1)"
    by (cases "place_order B e symbol (order_action order) (order_qty order)
       (Some (order_payload c symbol order)) c s") auto
  then have g1: "grows s s1" by (rule place_order_grows)
  from Cons.prems p have
    "(\<exists>t1 results1. execute_plan B e symbol rest t1 results1 c1 s1 = (t', results', c', s'))
     \<or> (\<exists>t1 results1. execute_plan B e symbol rest t1 results1 c1
            (write_log (Place_failed (order_label order)) s1) = (t', results', c', s'))"
    by (auto split: sum.splits body.splits)
  then have "\<exists>t1 results1 s2. grows s1 s2
      \<and> execute_plan B e symbol rest t1 results1 c1 s2 = (t', results', c', s')"
    using grows_refl grows_steps(1) by blast
  then obtain t1 results1 s2 where
    "grows s1 s2" "execute_plan B e symbol rest t1 results1 c1 s2 = (t', results', c', s')"
    by blast
  with Cons.IH g1 show ?case by (blast intro: grows_trans)
qed

lemma plan_fixed_grows: "plan_fixed c symbol action data s = (plan, sd, s') \<Longrightarrow> grows s s'"
  by (auto simp: plan_fixed_def Let_def grows_def write_log_def split: if_splits)

text \<open>
  In main\_fixed.py an order is placed only behind the two fresh listings: the position
  listing shows no position for the symbol and the order listing no Working or Accepted
  order, and nothing was placed before them.
\<close>

lemma webhook_fixed_places_behind_flat_check:
  assumes run: "webhook_fixed B e data c s = (r, c', s')"
    and placed: "placements (drop (length (events s)) (events s')) \<noteq> []"
  shows "\<exists>symbol pre post k code1 hdr1 positions ms1 code2 hdr2 orders ms2 ps os.
      events s' = events s @ pre @ [Sent Position_list, Sent Order_list] @ post
      \<and> placements pre = []
      \<and> k = calls s + length (requests pre)
      \<and> B k Position_list = (Reply code1 hdr1 positions, ms1)
      \<and> B (Suc k) Order_list = (Reply code2 hdr2 orders, ms2)
      \<and> items positions = Some ps \<and> has_position symbol ps = Some False
      \<and> items orders = Some os \<and> filter (working symbol) os = []"
proof -
  have "\<exists>a raw_symbol. map_of data ''action'' = Some (JStr a)
      \<and> map_of data ''symbol'' = Some raw_symbol"
  proof (rule ccontr)
    assume "\<not> ?thesis"
    then have "s' = s"
      using run by (auto simp: webhook_fixed_def split: option.splits jval.splits)
    with placed show False by simp
  qed
  then obtain a raw_symbol where
    d: "map_of data ''action'' = Some (JStr a)" "map_of data ''symbol'' = Some raw_symbol"
    by blast
  let ?symbol = "map_symbol raw_symbol"
  obtain r1 s1 where p: "prepare_fixed B ?symbol s = (r1, s1)"
    by (cases "prepare_fixed B ?symbol s")
  from prepare_fixed_adds [OF p] obtain pre where
    pre: "adds s s1 pre" "placements pre = []" by blast
  obtain r2 s2 where v: "verify_flat B ?symbol s1 = (r2, s2)"
    by (cases "verify_flat B ?symbol s1")
  from verify_flat_adds [OF v] obtain mid where
    mid: "adds s1 s2 mid" "placements mid = []" by blast
  have passed: "r1 = Inr () \<and> r2 = Inr None"
  proof (rule ccontr)
    assume "\<not> (r1 = Inr () \<and> r2 = Inr None)"
    then have "s' = s1 \<or> s' = s2"
      using run d p v
      by (auto simp: webhook_fixed_def Let_def split: sum.splits option.splits)
    then have "placements (drop (length (events s)) (events s')) = []"
      using pre mid by (auto simp: adds_def)
    with placed show False by simp
  qed
  then have v': "verify_flat B ?symbol s1 = (Inr None, s2)" using v by simp
  from verify_flat_passed [OF v'] obtain code1 hdr1 positions ms1 code2 hdr2 orders ms2 ps os
    where ok: "adds s1 s2 [Sent Position_list, Sent Order_list]"
      "B (calls s1) Position_list = (Reply code1 hdr1 positions, ms1)"
      "B (Suc (calls s1)) Order_list = (Reply code2 hdr2 orders, ms2)"
      "items positions = Some ps" "has_position ?symbol ps = Some False"
      "items orders = Some os" "filter (working ?symbol) os = []"
    by blast
  obtain order_plan stop_order_data s3 where
    pl: "plan_fixed c ?symbol (capitalize a) data s2 = (order_plan, stop_order_data, s3)"
    by (cases "plan_fixed c ?symbol (capitalize a) data s2") auto
  obtain t results c4 s4 where
    ex: "execute_plan B e ?symbol order_plan untracked [] c s3 = (t, results, c4, s4)"
    by (cases "execute_plan B e ?symbol order_plan untracked [] c s3") auto
  have "s' = s4"
    using run d p v passed pl ex by (simp add: webhook_fixed_def Let_def)
  moreover have "grows s2 s4"
    using plan_fixed_grows [OF pl] execute_plan_grows [OF ex] by (rule grows_trans)
  ultimately have grow: "\<exists>post. events s' = events s2 @ post"
    by (simp add: grows_def)
  then obtain post where post: "events s' = events s2 @ post" by blast
  have "events s' = events s @ pre @ [Sent Position_list, Sent Order_list] @ post"
    using post ok(1) pre(1) by (simp add: adds_def)
  moreover have "calls s1 = calls s + length (requests pre)"
    using pre(1) by (simp add: adds_def)
  ultimately show ?thesis
    using pre(2) ok(2-) by metis
qed

subsection \<open>A broker that never gets flat\<close>

definition long_alert :: obj where
  "long_alert =
     [(''symbol'', JStr ''NQM5''), (''action'', JStr ''Buy''), (''PRICE'', JFloat 100),
      (''T1'', JFloat 110), (''STOP'', JFloat 95)]"

definition never_flat :: broker where
  "never_flat k req =
     (case req of
        Position_list \<Rightarrow>
          (Reply 200 None (Objs [[(''symbol'', JStr ''NQM5''), (''netPos'', JInt 2)]]), 50)
      | Order_list \<Rightarrow>
          (Reply 200 None (Objs [[(''id'', JInt 11), (''symbol'', JStr ''NQM5''),
                                  (''status'', JStr ''Working'')]]), 50)
      | Place_order p \<Rightarrow> (Reply 200 None (Obj [(''id'', JInt (int k))]), 50)
      | _ \<Rightarrow> (Reply 200 None (Obj []), 50))"

definition tp_payload :: obj where
  "tp_payload =
     [(''accountId'', JInt 7), (''symbol'', JStr ''NQM5''), (''action'', JStr ''Sell''),
      (''orderQty'', JInt 1), (''orderType'', JStr ''Limit''), (''price'', JFloat 110),
      (''stopPrice'', JNull), (''timeInForce'', JStr ''GTC''), (''isAutomated'', JBool True)]"

lemma never_flat_cancel_round:
  "cancel_attempts never_flat (JStr ''NQM5'') (Suc n) \<lparr>now = t, calls = k, events = evs\<rparr>
     = cancel_attempts never_flat (JStr ''NQM5'') n
         \<lparr>now = t + 600, calls = k + 2,
          events = evs @ [Sent Order_list, Sent (Order_cancel (JInt 11)), Slept 500]\<rparr>"
  by (simp add: fetch_def send_def never_flat_def items_def raises_for_status_def
      not_terminal_def dict_get_def sleep_ms_def Let_def add.commute)

lemma never_flat_final_check:
  "final_check never_flat (JStr ''NQM5'') \<lparr>now = t, calls = k, events = evs\<rparr>
     = (Inr (), \<lparr>now = t + 50, calls = Suc k,
          events = evs @ [Sent Order_list, Logged (Still_open [JInt 11] [JStr ''Working''])]\<rparr>)"
  by (simp add: final_check_def fetch_def send_def never_flat_def items_def
      raises_for_status_def not_terminal_def dict_get_def write_log_def Let_def)

lemma never_flat_wait_round:
  "wait_loop never_flat (JStr ''NQM5'') t0 10000 \<lparr>now = t, calls = k, events = evs\<rparr>
     = (if t + 50 - t0 > 10000
        then (Inr (), \<lparr>now = t + 50, calls = Suc k,
               events = evs @ [Sent Order_list,
                               Logged (Timeout_waiting_for_orders (JStr ''NQM5''))]\<rparr>)
        else wait_loop never_flat (JStr ''NQM5'') t0 10000
               \<lparr>now = t + 550, calls = Suc k, events = evs @ [Sent Order_list, Slept 500]\<rparr>)"
  by (subst wait_loop.simps)
    (simp add: fetch_def send_def never_flat_def items_def raises_for_status_def
      working_def dict_get_def sleep_ms_def write_log_def add.commute)

lemma never_flat_cancel_all:
  "cancel_all_orders never_flat (JStr ''NQM5'') \<lparr>now = t, calls = k, events = evs\<rparr>
     = (Inr (), \<lparr>now = t + 4850, calls = k + 17,
          events = evs
            @ concat (replicate 8 [Sent Order_list, Sent (Order_cancel (JInt 11)), Slept 500])
            @ [Sent Order_list, Logged (Still_open [JInt 11] [JStr ''Working''])]\<rparr>)"
proof -
  have eight: "(8::nat) = Suc (Suc (Suc (Suc (Suc (Suc (Suc (Suc 0)))))))" by simp
  show ?thesis
    unfolding cancel_all_orders_def eight never_flat_cancel_round
    by (simp add: never_flat_final_check)
qed

lemma never_flat_listing:
  "fetch never_flat Position_list \<lparr>now = t, calls = k, events = evs\<rparr>
     = (Some [[(''symbol'', JStr ''NQM5''), (''netPos'', JInt 2)]],
        \<lparr>now = t + 50, calls = Suc k, events = evs @ [Sent Position_list]\<rparr>)"
  by (simp add: fetch_def send_def never_flat_def items_def raises_for_status_def)

lemma never_flat_position:
  "has_position (JStr ''NQM5'') [[(''symbol'', JStr ''NQM5''), (''netPos'', JInt 2)]] = Some True"
  by (simp add: net_open_def dict_get_def)

lemma never_flat_flatten:
  "flatten_position never_flat (JStr ''NQM5'') \<lparr>now = t, calls = k, events = evs\<rparr>
     = (Inr (), \<lparr>now = t + 50, calls = Suc k,
          events = evs @ [Sent (Close_position (JStr ''NQM5''))]\<rparr>)"
  by (simp add: flatten_position_def post_ignoring_status_def send_def never_flat_def)

lemma replicate_numeral: "replicate (numeral k) x = x # replicate (pred_numeral k) x"
  by (simp add: numeral_eq_Suc)

lemma never_flat_reconcile:
  "reconcile_enhanced never_flat (JStr ''NQM5'') clean_io
     = (Inr (), \<lparr>now = 15450, calls = 39,
         events = [Sent Position_list, Sent (Close_position (JStr ''NQM5''))]
           @ concat (replicate 8 [Sent Order_list, Sent (Order_cancel (JInt 11)), Slept 500])
           @ [Sent Order_list, Logged (Still_open [JInt 11] [JStr ''Working''])]
           @ concat (replicate 19 [Sent Order_list, Slept 500])
           @ [Sent Order_list, Logged (Timeout_waiting_for_orders (JStr ''NQM5''))]\<rparr>)"
  unfolding reconcile_enhanced_def clean_io_def never_flat_listing
  by (simp add: never_flat_position never_flat_flatten never_flat_cancel_all
      wait_until_no_open_orders_def never_flat_wait_round replicate_numeral
      del: has_position.simps)

definition entry_payload_100 :: obj where
  "entry_payload_100 =
     [(''accountId'', JInt 7), (''symbol'', JStr ''NQM5''), (''action'', JStr ''Buy''),
      (''orderQty'', JInt 1), (''orderType'', JStr ''Stop''), (''price'', JNull),
      (''stopPrice'', JFloat 100), (''timeInForce'', JStr ''GTC''),
      (''isAutomated'', JBool True)]"

definition stop_95 :: obj where
  "stop_95 =
     [(''accountId'', JInt 7), (''symbol'', JStr ''NQM5''), (''action'', JStr ''Sell''),
      (''orderQty'', JInt 1), (''orderType'', JStr ''Stop''), (''stopPrice'', JFloat 95),
      (''timeInForce'', JStr ''GTC''), (''isAutomated'', JBool True)]"

lemma lower_Buy: "lower ''Buy'' = ''buy''"
  by code_simp

lemma capitalize_Buy: "capitalize ''Buy'' = ''Buy''"
  by code_simp

lemmas plan_eval =
  plan_enhanced_def plan_fixed_def to_float_def has_key_def dict_get_def take_profit_def
  entry_def stop_order_def opposite_def order_payload_def lower_Buy capitalize_Buy
  logged_in_def long_alert_def tp_payload_def entry_payload_100_def stop_95_def

lemma never_flat_place:
  "truthy (dict_get p ''accountId'') \<Longrightarrow>
   place_order never_flat no_env symbol action q (Some p) logged_in
       \<lparr>now = t, calls = k, events = evs\<rparr>
     = (Inr (Obj [(''id'', JInt (int k))]), logged_in,
        \<lparr>now = t + 50, calls = Suc k, events = evs @ [Sent (Place_order p)]\<rparr>)"
  by (auto simp: place_order_def ensure_token_def logged_in_def send_def never_flat_def
      raises_for_status_def dict_get_def)

text \<open>
  Claim C3 fails on enhanced\_main.py. On a broker whose listings never get flat (a
  position of 2 and a Working order for the symbol, whatever is sent), the cancel step
  runs out of attempts, the wait runs into its timeout, and the handler then places the
  take-profit and the entry all the same.
\<close>

theorem enhanced_places_orders_while_not_flat:
  "(case webhook_enhanced (\<lambda>x. None) never_flat no_env long_alert Map.empty logged_in clean_io of
      (Inr (Planned results t sd), la, c, s') \<Rightarrow>
        placements (events s') = [tp_payload, entry_payload_100]
        \<and> map fst results = [TP1, ENTRY]
        \<and> Logged (Still_open [JInt 11] [JStr ''Working'']) \<in> set (events s')
        \<and> Logged (Timeout_waiting_for_orders (JStr ''NQM5'')) \<in> set (events s')
    | _ \<Rightarrow> False)
   \<and> (\<forall>k. \<exists>ps os.
          fst (never_flat k Position_list) = Reply 200 None (Objs ps)
        \<and> has_position (JStr ''NQM5'') ps = Some True
        \<and> fst (never_flat k Order_list) = Reply 200 None (Objs os)
        \<and> filter (working (JStr ''NQM5'')) os \<noteq> [])"
proof
  have plan: "plan_enhanced (\<lambda>x. None) logged_in (JStr ''NQM5'') ''Buy'' long_alert s
      = (Some ([take_profit ''Buy'' (JFloat 110), entry ''Buy'' (JFloat 100)], Some stop_95), s)"
    for s
    by (simp add: plan_eval)
  have pay: "order_payload logged_in (JStr ''NQM5'') (take_profit ''Buy'' (JFloat 110)) = tp_payload"
    "order_payload logged_in (JStr ''NQM5'') (entry ''Buy'' (JFloat 100)) = entry_payload_100"
    by (simp_all add: plan_eval)
  have acc: "truthy (dict_get tp_payload ''accountId'')"
    "truthy (dict_get entry_payload_100 ''accountId'')"
    by (simp_all add: plan_eval)
  have dg: "dict_get long_alert ''symbol'' = JStr ''NQM5''"
    "dict_get long_alert ''action'' = JStr ''Buy''"
    by (simp_all add: long_alert_def dict_get_def)
  show "case webhook_enhanced (\<lambda>x. None) never_flat no_env long_alert Map.empty logged_in clean_io of
      (Inr (Planned results t sd), la, c, s') \<Rightarrow>
        placements (events s') = [tp_payload, entry_payload_100]
        \<and> map fst results = [TP1, ENTRY]
        \<and> Logged (Still_open [JInt 11] [JStr ''Working'']) \<in> set (events s')
        \<and> Logged (Timeout_waiting_for_orders (JStr ''NQM5'')) \<in> set (events s')
    | _ \<Rightarrow> False"
    by (simp add: webhook_enhanced_def map_symbol_def never_flat_reconcile plan pay
        never_flat_place acc replicate_numeral dg lower_Buy Let_def)
  show "\<forall>k. \<exists>ps os.
          fst (never_flat k Position_list) = Reply 200 None (Objs ps)
        \<and> has_position (JStr ''NQM5'') ps = Some True
        \<and> fst (never_flat k Order_list) = Reply 200 None (Objs os)
        \<and> filter (working (JStr ''NQM5'')) os \<noteq> []"
    by (simp add: never_flat_def net_open_def working_def dict_get_def)
qed


subsection \<open>What the plan submits\<close>





















section \<open>Order lifecycle monitors\<close>

text \<open>
  The state of a monitor: the \<^verbatim>\<open>entry_filled\<close> and \<^verbatim>\<open>stop_placed\<close> flags, the
  \<^verbatim>\<open>order_tracking\<close> dict (its keys ENTRY, TP1, STOP in this order, as the handlers build
  it), the labels in \<^verbatim>\<open>active_orders\<close>, the client and the effects. A status that was
  read is recorded in the trace as \<open>Observed\<close>.
\<close>

record mon =
  entry_filled :: bool
  stop_placed :: bool
  tracked :: tracking
  active_orders :: "label list"
  mon_client :: client
  mon_io :: io

datatype round = Completed | Returned label | Excepted

datatype exit = Done label | No_active | Timed_out

datatype run = Out_of_fuel mon | Finished exit mon

definition observe :: "label \<Rightarrow> jval \<Rightarrow> io \<Rightarrow> io" where
  "observe l status s = s\<lparr>events := events s @ [Observed l status]\<rparr>"

text \<open>\<^verbatim>\<open>GET /order/{order_id}\<close>, \<^verbatim>\<open>raise_for_status()\<close>, \<^verbatim>\<open>.json().get("status")\<close>:
  the status, or \<open>None\<close> when one of them raises.\<close>

definition read_status :: "broker \<Rightarrow> label \<Rightarrow> jval \<Rightarrow> io \<Rightarrow> jval option \<times> io" where
  "read_status B l order_id s =
     (case send B (Order_item order_id) s of
        (Reply code hdr (Obj order_status), s1) \<Rightarrow>
          if raises_for_status code then (None, s1)
          else (Some (dict_get order_status ''status''),
                observe l (dict_get order_status ''status'') s1)
      | (_, s1) \<Rightarrow> (None, s1))"

subsection \<open>main\_fixed.py\<close>









definition monitor_start :: "tracking \<Rightarrow> client \<Rightarrow> io \<Rightarrow> mon" where
  "monitor_start t c s =
     \<lparr>entry_filled = False, stop_placed = False, tracked = t, active_orders = [],
      mon_client = c, mon_io = s\<rparr>"


subsection \<open>main.py\<close>

text \<open>The monitor of main.py reads the name \<^verbatim>\<open>httpx\<close>, which the module does not bind. It
  is modelled here with the name bound, which is the monitor of enhanced\_main.py as well;
  with the name unbound, every round with a tracked order raises where the model sends the
  first status request, and goes to the same handler of the loop.\<close>

text \<open>\<^verbatim>\<open>status and status.lower() == "filled"\<close>; \<open>None\<close> when the status is a true value
  without \<^verbatim>\<open>.lower\<close>.\<close>

definition is_filled :: "jval \<Rightarrow> bool option" where
  "is_filled status =
     (if truthy status
      then (case status of JStr x \<Rightarrow> Some (lower x = ''filled'') | _ \<Rightarrow> None)
      else Some False)"

definition truthy_dict :: "obj option \<Rightarrow> bool" where
  "truthy_dict d = (case d of None \<Rightarrow> False | Some kvs \<Rightarrow> kvs \<noteq> [])"

text \<open>The OSO request built from the stop data once the entry is filled, and whether
  it was sent. Its outcome only sets \<^verbatim>\<open>stop_placed\<close>; every failure is logged.\<close>

definition oso_order :: "client \<Rightarrow> obj \<Rightarrow> bool \<Rightarrow> obj" where
  "oso_order c d with_tif =
     [(''accountSpec'', account_spec c), (''accountId'', account_id c),
      (''action'', dict_get d ''action''), (''symbol'', dict_get d ''symbol''),
      (''orderQty'', (case map_of d ''orderQty'' of None \<Rightarrow> JInt 1 | Some q \<Rightarrow> q)),
      (''orderType'', JStr ''Stop''), (''price'', dict_get d ''stopPrice'')]
     @ (if with_tif then [(''timeInForce'', JStr ''GTC'')] else [])
     @ [(''isAutomated'', JBool True)]"

definition oso_bracket :: "obj \<Rightarrow> obj" where
  "oso_bracket d =
     [(''action'', JStr (if dict_get d ''action'' = JStr ''Buy'' then ''Sell'' else ''Buy'')),
      (''orderType'', JStr ''Limit''), (''price'', dict_get d ''T1''),
      (''timeInForce'', JStr ''GTC'')]"

definition on_entry_fill :: "broker \<Rightarrow> client \<Rightarrow> obj option \<Rightarrow> bool \<Rightarrow> mon \<Rightarrow> mon" where
  "on_entry_fill B c stop_order_data with_tif m =
     (case stop_order_data of
        None \<Rightarrow> m\<lparr>entry_filled := True\<rparr>
      | Some d \<Rightarrow>
          if d \<noteq> [] \<and> has_key d ''T1'' then
            (case send B (Place_oso (oso_order c d with_tif) (oso_bracket d)) (mon_io m) of
               (Reply code hdr (Obj oso_result), s1) \<Rightarrow>
                 if \<not> raises_for_status code \<and> has_key oso_result ''orderId''
                 then m\<lparr>entry_filled := True, stop_placed := True, mon_io := s1\<rparr>
                 else m\<lparr>entry_filled := True, mon_io := write_log (Place_failed STOP) s1\<rparr>
             | (_, s1) \<Rightarrow>
                 m\<lparr>entry_filled := True, mon_io := write_log (Place_failed STOP) s1\<rparr>)
          else m\<lparr>entry_filled := True\<rparr>)"

text \<open>\<^verbatim>\<open>mark_trade_completed\<close> lower-cases the action of the stop data (\<open>unknown\<close> without
  it); \<open>None\<close> when that action has no \<^verbatim>\<open>.lower\<close>.\<close>

definition trade_direction :: "obj option \<Rightarrow> string option" where
  "trade_direction stop_order_data =
     (case stop_order_data of
        None \<Rightarrow> Some ''unknown''
      | Some d \<Rightarrow>
          if d = [] then Some ''unknown''
          else (case map_of d ''action'' of
                  None \<Rightarrow> Some ''unknown''
                | Some (JStr a) \<Rightarrow> Some (lower a)
                | Some _ \<Rightarrow> None))"

text \<open>The cancel of the other leg is guarded: whatever the request does, the monitor
  returns. main.py logs a warning for an answer other than 200 (\<open>warn\<close>).\<close>

definition cancel_other :: "broker \<Rightarrow> bool \<Rightarrow> label \<Rightarrow> mon \<Rightarrow> mon" where
  "cancel_other B warn other m =
     (if truthy (tracked m other) then
        (case send B (Order_cancel (tracked m other)) (mon_io m) of
           (Raised, s1) \<Rightarrow> m\<lparr>mon_io := write_log (Cancel_failed (tracked m other)) s1\<rparr>
         | (Reply code hdr b, s1) \<Rightarrow>
             if code \<noteq> 200 \<and> warn
             then m\<lparr>mon_io := write_log (Cancel_not_confirmed other code) s1\<rparr>
             else m\<lparr>mon_io := s1\<rparr>)
      else m)"

definition on_exit_fill ::
  "broker \<Rightarrow> bool \<Rightarrow> obj option \<Rightarrow> label \<Rightarrow> label \<Rightarrow> mon \<Rightarrow> round \<times> mon" where
  "on_exit_fill B warn stop_order_data winner other m =
     (case trade_direction stop_order_data of
        None \<Rightarrow> (Excepted, m)
      | Some dir \<Rightarrow>
          (Returned winner,
           cancel_other B warn other (m\<lparr>mon_io := write_log (Trade_completed dir) (mon_io m)\<rparr>)))"

definition note_active :: "label \<Rightarrow> jval \<Rightarrow> mon \<Rightarrow> mon" where
  "note_active l status m =
     (if status = JStr ''Working'' \<or> status = JStr ''Accepted''
      then m\<lparr>active_orders := active_orders m @ [l]\<rparr> else m)"

definition visit_main ::
  "broker \<Rightarrow> client \<Rightarrow> obj option \<Rightarrow> label \<Rightarrow> mon \<Rightarrow> round \<times> mon" where
  "visit_main B c sd l m =
     (case read_status B l (tracked m l) (mon_io m) of
        (None, s1) \<Rightarrow> (Excepted, m\<lparr>mon_io := s1\<rparr>)
      | (Some status, s1) \<Rightarrow>
          (case is_filled status of
             None \<Rightarrow> (Excepted, m\<lparr>mon_io := s1\<rparr>)
           | Some filled \<Rightarrow>
               if l = ENTRY then
                 (if filled \<and> \<not> entry_filled m
                  then (Completed, on_entry_fill B c sd False (m\<lparr>mon_io := s1\<rparr>))
                  else (Completed, note_active l status (m\<lparr>mon_io := s1\<rparr>)))
               else if filled then
                 on_exit_fill B True sd l (if l = STOP then TP1 else STOP) (m\<lparr>mon_io := s1\<rparr>)
               else (Completed, note_active l status (m\<lparr>mon_io := s1\<rparr>))))"

fun poll_main ::
  "broker \<Rightarrow> client \<Rightarrow> obj option \<Rightarrow> label list \<Rightarrow> mon \<Rightarrow> round \<times> mon" where
  "poll_main B c sd [] m = (Completed, m)"
| "poll_main B c sd (l # ls) m =
     (if tracked m l = JNull then poll_main B c sd ls m
      else (case visit_main B c sd l m of
              (Completed, m1) \<Rightarrow> poll_main B c sd ls m1
            | (r, m1) \<Rightarrow> (r, m1)))"

definition max_monitoring_time :: nat where
  "max_monitoring_time = 3600000"

text \<open>
  \<^verbatim>\<open>while True\<close> of main.py, with fuel for the rounds. The time limit is looked at after a
  round that completed; a round that raised goes to the handler, sleeps two seconds and
  starts the next round.
\<close>

fun monitor_main :: "nat \<Rightarrow> broker \<Rightarrow> client \<Rightarrow> obj option \<Rightarrow> nat \<Rightarrow> mon \<Rightarrow> run" where
  "monitor_main 0 B c sd monitoring_start_time m = Out_of_fuel m"
| "monitor_main (Suc n) B c sd monitoring_start_time m =
     (case poll_main B c sd [ENTRY, TP1, STOP] (m\<lparr>active_orders := []\<rparr>) of
        (Returned w, m1) \<Rightarrow> Finished (Done w) m1
      | (Excepted, m1) \<Rightarrow>
          monitor_main n B c sd monitoring_start_time
            (m1\<lparr>mon_io := sleep_ms 2000 (write_log Monitor_error (mon_io m1))\<rparr>)
      | (Completed, m1) \<Rightarrow>
          if now (mon_io m1) - monitoring_start_time > max_monitoring_time
          then Finished Timed_out (m1\<lparr>mon_io := write_log Monitoring_timeout (mon_io m1)\<rparr>)
          else if active_orders m1 = []
          then Finished No_active (m1\<lparr>mon_io := write_log No_active_orders (mon_io m1)\<rparr>)
          else monitor_main n B c sd monitoring_start_time
                 (m1\<lparr>mon_io := sleep_ms (if entry_filled m1 then 1000 else 500) (mon_io m1)\<rparr>))"

definition monitor_all_orders :: "nat \<Rightarrow> broker \<Rightarrow> client \<Rightarrow> obj option \<Rightarrow> tracking \<Rightarrow> io \<Rightarrow> run" where
  "monitor_all_orders fuel B c sd order_tracking s =
     monitor_main fuel B c sd (now s) (monitor_start order_tracking c s)"

subsection \<open>main\_optimized.py\<close>

text \<open>\<^verbatim>\<open>asyncio.gather\<close> over the status requests of the tracked orders: all are sent
  before any answer is looked at.\<close>

fun gather_status :: "broker \<Rightarrow> tracking \<Rightarrow> label list \<Rightarrow> io \<Rightarrow> (label \<times> reply) list \<times> io" where
  "gather_status B t [] s = ([], s)"
| "gather_status B t (l # ls) s =
     (if t l = JNull then gather_status B t ls s
      else (case send B (Order_item (t l)) s of
              (r, s1) \<Rightarrow> (case gather_status B t ls s1 of (rs, s2) \<Rightarrow> ((l, r) # rs, s2))))"

definition logged_error :: "mon \<Rightarrow> mon" where
  "logged_error m = m\<lparr>mon_io := write_log Monitor_error (mon_io m)\<rparr>"

text \<open>The answers are processed one by one; an answer that is an exception is skipped,
  and what raises while one is processed is logged, after which the next is processed.\<close>

definition visit_fast ::
  "broker \<Rightarrow> client \<Rightarrow> obj option \<Rightarrow> label \<Rightarrow> reply \<Rightarrow> mon \<Rightarrow> round \<times> mon" where
  "visit_fast B c sd l r m =
     (case r of
        Reply code hdr (Obj order_status) \<Rightarrow>
          if raises_for_status code then (Completed, logged_error m)
          else
            let status = dict_get order_status ''status'';
                m0 = m\<lparr>mon_io := observe l status (mon_io m)\<rparr>
            in (case is_filled status of
                  None \<Rightarrow> (Completed, logged_error m0)
                | Some filled \<Rightarrow>
                    if l = ENTRY then
                      (if filled \<and> \<not> entry_filled m
                       then (Completed, on_entry_fill B c sd True m0)
                       else (Completed, note_active l status m0))
                    else if filled then
                      (case on_exit_fill B False sd l (if l = STOP then TP1 else STOP) m0 of
                         (Returned w, m1) \<Rightarrow> (Returned w, m1)
                       | (_, m1) \<Rightarrow> (Completed, logged_error m1))
                    else (Completed, note_active l status m0))
      | Reply code hdr _ \<Rightarrow> (Completed, logged_error m)
      | Raised \<Rightarrow> (Completed, m))"

fun process_fast ::
  "broker \<Rightarrow> client \<Rightarrow> obj option \<Rightarrow> (label \<times> reply) list \<Rightarrow> mon \<Rightarrow> round \<times> mon" where
  "process_fast B c sd [] m = (Completed, m)"
| "process_fast B c sd ((l, r) # rest) m =
     (case visit_fast B c sd l r m of
        (Completed, m1) \<Rightarrow> process_fast B c sd rest m1
      | (r1, m1) \<Rightarrow> (r1, m1))"

definition max_monitoring_time_fast :: nat where
  "max_monitoring_time_fast = 1800000"

fun monitor_fast :: "nat \<Rightarrow> broker \<Rightarrow> client \<Rightarrow> obj option \<Rightarrow> nat \<Rightarrow> mon \<Rightarrow> run" where
  "monitor_fast 0 B c sd monitoring_start_time m = Out_of_fuel m"
| "monitor_fast (Suc n) B c sd monitoring_start_time m =
     (case gather_status B (tracked m) [ENTRY, TP1, STOP] (mon_io m) of
        (responses, s1) \<Rightarrow>
          (case process_fast B c sd responses (m\<lparr>active_orders := [], mon_io := s1\<rparr>) of
             (Returned w, m1) \<Rightarrow> Finished (Done w) m1
           | (_, m1) \<Rightarrow>
               if now (mon_io m1) - monitoring_start_time > max_monitoring_time_fast
               then Finished Timed_out (m1\<lparr>mon_io := write_log Monitoring_timeout (mon_io m1)\<rparr>)
               else if active_orders m1 = []
               then Finished No_active (m1\<lparr>mon_io := write_log No_active_orders (mon_io m1)\<rparr>)
               else monitor_fast n B c sd monitoring_start_time
                      (m1\<lparr>mon_io := sleep_ms
                           (if entry_filled m1 \<and> stop_placed m1 then 1000 else 300)
                           (mon_io m1)\<rparr>)))"

definition monitor_all_orders_fast ::
  "nat \<Rightarrow> broker \<Rightarrow> client \<Rightarrow> obj option \<Rightarrow> tracking \<Rightarrow> io \<Rightarrow> run" where
  "monitor_all_orders_fast fuel B c sd order_tracking s =
     monitor_fast fuel B c sd (now s) (monitor_start order_tracking c s)"


subsection \<open>The time limit of the monitors\<close>

text \<open>A broker that is down: every request is answered 503 after 100 ms.\<close>

definition down :: broker where
  "down k req = (Reply 503 None Not_json, 100)"

definition entry_only :: tracking where
  "entry_only = untracked(ENTRY := JInt 1)"

lemma down_round:
  assumes "tracked m ENTRY = JInt 1"
  shows "poll_main down c sd [ENTRY, TP1, STOP] (m\<lparr>active_orders := []\<rparr>)
    = (Excepted, m\<lparr>active_orders := [],
         mon_io := (mon_io m)\<lparr>now := now (mon_io m) + 100, calls := Suc (calls (mon_io m)),
           events := events (mon_io m) @ [Sent (Order_item (JInt 1))]\<rparr>\<rparr>)"
  using assms
  by (simp add: visit_main_def read_status_def send_def down_def raises_for_status_def)

lemma down_never_returns:
  "tracked m ENTRY = JInt 1 \<Longrightarrow>
     \<exists>m'. monitor_main n down c sd t0 m = Out_of_fuel m'
        \<and> now (mon_io m') = now (mon_io m) + 2100 * n
        \<and> calls (mon_io m') = calls (mon_io m) + n"
proof (induction n arbitrary: m)
  case 0
  show ?case by simp
next
  case (Suc n)
  let ?m1 = "m\<lparr>active_orders := [],
         mon_io := (mon_io m)\<lparr>now := now (mon_io m) + 100, calls := Suc (calls (mon_io m)),
           events := events (mon_io m) @ [Sent (Order_item (JInt 1))]\<rparr>\<rparr>"
  let ?m2 = "?m1\<lparr>mon_io := sleep_ms 2000 (write_log Monitor_error (mon_io ?m1))\<rparr>"
  have step: "monitor_main (Suc n) down c sd t0 m = monitor_main n down c sd t0 ?m2"
    using down_round [OF Suc.prems] by simp
  have "tracked ?m2 ENTRY = JInt 1" using Suc.prems by simp
  from Suc.IH [OF this] obtain m' where
    "monitor_main n down c sd t0 ?m2 = Out_of_fuel m'"
    "now (mon_io m') = now (mon_io ?m2) + 2100 * n"
    "calls (mon_io m') = calls (mon_io ?m2) + n"
    by blast
  then show ?case
    unfolding step by (simp add: sleep_ms_def write_log_def)
qed

text \<open>
  Claim C7 fails on main.py. With the entry order tracked and the broker down, every round
  of the monitor raises at the first status request, so the time limit after the loop
  over the orders is never reached: whatever the number of rounds, the monitor is still
  running, 2.1 seconds later per round. After 1715 rounds the hour has passed.
\<close>

theorem monitor_polls_past_the_time_limit:
  "(\<forall>n. \<exists>m. monitor_all_orders n down logged_in (Some stop_95) entry_only clean_io
              = Out_of_fuel m
         \<and> now (mon_io m) - now clean_io = 2100 * n \<and> calls (mon_io m) = n)
   \<and> 2100 * 1715 > max_monitoring_time"
proof
  show "\<forall>n. \<exists>m. monitor_all_orders n down logged_in (Some stop_95) entry_only clean_io
              = Out_of_fuel m
         \<and> now (mon_io m) - now clean_io = 2100 * n \<and> calls (mon_io m) = n"
  proof
    fix n
    have "tracked (monitor_start entry_only logged_in clean_io) ENTRY = JInt 1"
      by (simp add: monitor_start_def entry_only_def)
    from down_never_returns [OF this, of n logged_in "Some stop_95" "now clean_io"]
    show "\<exists>m. monitor_all_orders n down logged_in (Some stop_95) entry_only clean_io
              = Out_of_fuel m
         \<and> now (mon_io m) - now clean_io = 2100 * n \<and> calls (mon_io m) = n"
      by (auto simp: monitor_all_orders_def monitor_start_def clean_io_def)
  qed
  show "2100 * 1715 > max_monitoring_time"
    by (simp add: max_monitoring_time_def)
qed

text \<open>
  The monitor of main\_optimized.py does stop: no answer makes a round raise, every round
  that goes on sleeps at least 300 ms, and the time limit is looked at in every round.
\<close>

lemma now_gather_status:
  "gather_status B t ls s = (rs, s') \<Longrightarrow> now s \<le> now s'"
proof (induction ls arbitrary: s rs s')
  case Nil
  then show ?case by simp
next
  case (Cons l ls)
  show ?case
  proof (cases "t l = JNull")
    case True
    with Cons show ?thesis by simp
  next
    case False
    obtain r s1 where snd: "send B (Order_item (t l)) s = (r, s1)"
      by (cases "send B (Order_item (t l)) s")
    obtain rs1 s2 where g: "gather_status B t ls s1 = (rs1, s2)"
      by (cases "gather_status B t ls s1")
    from Cons.prems False snd g have "s' = s2" by simp
    with Cons.IH [OF g] now_send [OF snd] show ?thesis by simp
  qed
qed

lemma now_on_entry_fill: "now (mon_io m) \<le> now (mon_io (on_entry_fill B c sd tif m))"
  by (auto simp: on_entry_fill_def write_log_def
      split: option.splits prod.splits reply.splits body.splits dest!: now_send)

lemma now_cancel_other: "now (mon_io m) \<le> now (mon_io (cancel_other B warn other m))"
  by (auto simp: cancel_other_def write_log_def
      split: prod.splits reply.splits dest!: now_send)

lemma now_on_exit_fill:
  "on_exit_fill B warn sd w other m = (r, m') \<Longrightarrow> now (mon_io m) \<le> now (mon_io m')"
proof -
  assume a: "on_exit_fill B warn sd w other m = (r, m')"
  show ?thesis
  proof (cases "trade_direction sd")
    case None
    with a show ?thesis by (simp add: on_exit_fill_def)
  next
    case (Some dir)
    with a have "m' = cancel_other B warn other
        (m\<lparr>mon_io := write_log (Trade_completed dir) (mon_io m)\<rparr>)"
      by (simp add: on_exit_fill_def)
    then show ?thesis
      using now_cancel_other
        [of "m\<lparr>mon_io := write_log (Trade_completed dir) (mon_io m)\<rparr>" B warn other]
      by (simp add: write_log_def)
  qed
qed

lemma now_visit_fast:
  assumes "visit_fast B c sd l r m = (r1, m1)"
  shows "now (mon_io m) \<le> now (mon_io m1) \<and> r1 \<noteq> Excepted"
proof (cases "\<exists>code hdr os. r = Reply code hdr (Obj os) \<and> \<not> raises_for_status code
    \<and> is_filled (dict_get os ''status'') \<noteq> None")
  case False
  with assms have "m1 = m \<or> m1 = logged_error m
      \<or> (\<exists>st. m1 = logged_error (m\<lparr>mon_io := observe l st (mon_io m)\<rparr>))"
    and "r1 = Completed"
    by (auto simp: visit_fast_def Let_def
        split: reply.splits body.splits if_splits option.splits)
  then show ?thesis
    by (auto simp: logged_error_def write_log_def observe_def)
next
  case True
  then obtain code hdr os filled where
    r: "r = Reply code hdr (Obj os)" "\<not> raises_for_status code"
       "is_filled (dict_get os ''status'') = Some filled"
    by auto
  let ?st = "dict_get os ''status''"
  let ?m0 = "m\<lparr>mon_io := observe l ?st (mon_io m)\<rparr>"
  have n0: "now (mon_io ?m0) = now (mon_io m)" by (simp add: observe_def)
  show ?thesis
  proof (cases "l \<noteq> ENTRY \<and> filled")
    case False
    with assms r have "r1 = Completed"
      and "m1 = on_entry_fill B c sd True ?m0 \<or> m1 = note_active l ?st ?m0"
      by (auto simp: visit_fast_def Let_def split: if_splits)
    then show ?thesis
      using now_on_entry_fill [of ?m0 B c sd True] n0
      by (auto simp: note_active_def)
  next
    case True
    obtain r2 m2 where ex:
      "on_exit_fill B False sd l (if l = STOP then TP1 else STOP) ?m0 = (r2, m2)"
      by (cases "on_exit_fill B False sd l (if l = STOP then TP1 else STOP) ?m0")
    from now_on_exit_fill [OF ex] n0 have n2: "now (mon_io m) \<le> now (mon_io m2)" by simp
    from assms r True ex have "(r1 = r2 \<and> r2 \<noteq> Excepted \<and> m1 = m2)
        \<or> (r1 = Completed \<and> m1 = logged_error m2)"
      by (auto simp: visit_fast_def Let_def split: round.splits)
    then show ?thesis
      using n2 by (auto simp: logged_error_def write_log_def)
  qed
qed

lemma now_process_fast:
  "process_fast B c sd rs m = (r, m') \<Longrightarrow> now (mon_io m) \<le> now (mon_io m') \<and> r \<noteq> Excepted"
proof (induction rs arbitrary: m)
  case Nil
  then show ?case by auto
next
  case (Cons lr rest)
  obtain l rp where lr: "lr = (l, rp)" by (cases lr)
  obtain r1 m1 where v: "visit_fast B c sd l rp m = (r1, m1)"
    by (cases "visit_fast B c sd l rp m")
  from now_visit_fast [OF v] have n1: "now (mon_io m) \<le> now (mon_io m1)" "r1 \<noteq> Excepted"
    by simp_all
  show ?case
  proof (cases r1)
    case Completed
    with Cons.prems lr v have "process_fast B c sd rest m1 = (r, m')" by simp
    from Cons.IH [OF this] n1 show ?thesis by simp
  next
    case (Returned w)
    with Cons.prems lr v have "r = Returned w" "m' = m1" by simp_all
    with n1 show ?thesis by simp
  next
    case Excepted
    with n1 show ?thesis by simp
  qed
qed

text \<open>With \<open>n\<close> further rounds of at least 300 ms each in hand, the monitor ends.\<close>

lemma monitor_fast_ends:
  "t0 \<le> now (mon_io m) \<Longrightarrow> n * 300 + (now (mon_io m) - t0) > max_monitoring_time_fast \<Longrightarrow>
     \<exists>x m'. monitor_fast (Suc n) B c sd t0 m = Finished x m'"
proof (induction n arbitrary: m)
  case 0
  obtain rs s1 where g: "gather_status B (tracked m) [ENTRY, TP1, STOP] (mon_io m) = (rs, s1)"
    by (cases "gather_status B (tracked m) [ENTRY, TP1, STOP] (mon_io m)")
  obtain r m1 where p: "process_fast B c sd rs (m\<lparr>active_orders := [], mon_io := s1\<rparr>) = (r, m1)"
    by (cases "process_fast B c sd rs (m\<lparr>active_orders := [], mon_io := s1\<rparr>)")
  from now_gather_status [OF g] now_process_fast [OF p]
  have "now (mon_io m) \<le> now (mon_io m1)" by simp
  with "0.prems" have late: "now (mon_io m1) - t0 > max_monitoring_time_fast" by simp
  show ?case
    using g p late by (cases r) simp_all
next
  case (Suc n)
  obtain rs s1 where g: "gather_status B (tracked m) [ENTRY, TP1, STOP] (mon_io m) = (rs, s1)"
    by (cases "gather_status B (tracked m) [ENTRY, TP1, STOP] (mon_io m)")
  obtain r m1 where p: "process_fast B c sd rs (m\<lparr>active_orders := [], mon_io := s1\<rparr>) = (r, m1)"
    by (cases "process_fast B c sd rs (m\<lparr>active_orders := [], mon_io := s1\<rparr>)")
  from now_gather_status [OF g] now_process_fast [OF p]
  have mono: "now (mon_io m) \<le> now (mon_io m1)" and ne: "r \<noteq> Excepted" by simp_all
  let ?m2 = "m1\<lparr>mon_io := sleep_ms (if entry_filled m1 \<and> stop_placed m1 then 1000 else 300)
                (mon_io m1)\<rparr>"
  define t2 where "t2 = now (mon_io ?m2)"
  have ge: "t2 \<ge> now (mon_io m) + 300"
    using mono by (simp add: t2_def sleep_ms_def)
  from Suc.prems
  have "max_monitoring_time_fast < n * 300 + 300 + (now (mon_io m) - t0)" by simp
  with ge Suc.prems(1) have "t0 \<le> t2" "n * 300 + (t2 - t0) > max_monitoring_time_fast"
    by linarith+
  then have "t0 \<le> now (mon_io ?m2)"
    "n * 300 + (now (mon_io ?m2) - t0) > max_monitoring_time_fast"
    unfolding t2_def .
  from Suc.IH [OF this] obtain x m' where
    rec: "monitor_fast (Suc n) B c sd t0 ?m2 = Finished x m'" by blast
  show ?case
  proof (cases r)
    case (Returned w)
    with g p show ?thesis by simp
  next
    case Excepted
    with ne show ?thesis by simp
  next
    case Completed
    have step: "monitor_fast (Suc (Suc n)) B c sd t0 m =
        (if now (mon_io m1) - t0 > max_monitoring_time_fast
         then Finished Timed_out (m1\<lparr>mon_io := write_log Monitoring_timeout (mon_io m1)\<rparr>)
         else if active_orders m1 = []
         then Finished No_active (m1\<lparr>mon_io := write_log No_active_orders (mon_io m1)\<rparr>)
         else monitor_fast (Suc n) B c sd t0 ?m2)"
      by (simp only: monitor_fast.simps(2) [of "Suc n" B c sd t0 m] g p Completed
          prod.case round.case)
    show ?thesis
      unfolding step rec by auto
  qed
qed

lemma monitor_all_orders_fast_ends:
  "\<exists>x m'. monitor_all_orders_fast 6002 B c sd t s = Finished x m'"
proof -
  have "now s \<le> now (mon_io (monitor_start t c s))"
    "6001 * 300 + (now (mon_io (monitor_start t c s)) - now s) > max_monitoring_time_fast"
    by (simp_all add: max_monitoring_time_fast_def monitor_start_def)
  from monitor_fast_ends [OF this, of B c sd] show ?thesis
    by (simp add: monitor_all_orders_fast_def del: monitor_fast.simps)
qed


subsection \<open>The stop is held until the entry is seen filled\<close>









lemma read_status_events:
  assumes "read_status B l i s = (r, s1)"
  shows "\<exists>xs. events s1 = events s @ xs \<and> placements xs = []
           \<and> (\<forall>st. r = Some st \<longrightarrow> Observed l st \<in> set xs)"
  using assms
  by (auto simp: read_status_def send_def observe_def
      split: prod.splits reply.splits body.splits if_splits)



















subsection \<open>How a monitor reaches the end of a trade\<close>

definition other_leg :: "label \<Rightarrow> label" where
  "other_leg w = (if w = TP1 then STOP else TP1)"

text \<open>The end of the trace of a monitor that returns for the exit leg \<open>w\<close>: the status
  request for \<open>w\<close>, its answer \<open>st\<close>, what is logged then, and the cancel request for the
  other leg when that is tracked with an id that counts as true.\<close>

definition exit_tail :: "tracking \<Rightarrow> label \<Rightarrow> jval \<Rightarrow> event list \<Rightarrow> event list" where
  "exit_tail t w st logged =
     [Sent (Order_item (t w)), Observed w st] @ logged
     @ (if truthy (t (other_leg w)) then [Sent (Order_cancel (t (other_leg w)))] else [])"








text \<open>The monitor of main.py, read with the name \<^verbatim>\<open>httpx\<close> bound, returns on an exit leg
  that reads as filled in any case of the letters, whether or not the entry was seen
  filled; the cancel is followed by a log when it raises or is not answered with 200.\<close>

lemma cancel_other_events:
  "\<exists>logs. events (mon_io (cancel_other B warn other m))
       = events (mon_io m)
         @ (if truthy (tracked m other) then [Sent (Order_cancel (tracked m other))] else [])
         @ logs
     \<and> requests logs = []
     \<and> tracked (cancel_other B warn other m) = tracked m"
proof (cases "truthy (tracked m other)")
  case False
  then show ?thesis by (simp add: cancel_other_def)
next
  case True
  obtain r s1 where snd: "send B (Order_cancel (tracked m other)) (mon_io m) = (r, s1)"
    by (cases "send B (Order_cancel (tracked m other)) (mon_io m)")
  then have e1: "events s1 = events (mon_io m) @ [Sent (Order_cancel (tracked m other))]"
    by (simp add: send_events)
  have "events (mon_io (cancel_other B warn other m)) = events s1 @ []
      \<or> (\<exists>l. events (mon_io (cancel_other B warn other m)) = events s1 @ [Logged l])"
    using True snd by (cases r) (auto simp: cancel_other_def write_log_def)
  then obtain logs where
    "events (mon_io (cancel_other B warn other m)) = events s1 @ logs" "requests logs = []"
    by auto
  moreover have "tracked (cancel_other B warn other m) = tracked m"
    using True snd by (cases r) (auto simp: cancel_other_def)
  ultimately show ?thesis using True e1 by auto
qed

lemma visit_main_returned:
  assumes "visit_main B c sd l m = (Returned w, m')"
  shows "w = l \<and> (w = TP1 \<or> w = STOP) \<and> tracked m' = tracked m
       \<and> (\<exists>st dir logs. is_filled st = Some True \<and> requests logs = []
            \<and> events (mon_io m') = events (mon_io m)
                 @ exit_tail (tracked m) w st [Logged (Trade_completed dir)] @ logs)"
proof -
  obtain r s1 where rs: "read_status B l (tracked m l) (mon_io m) = (r, s1)"
    by (cases "read_status B l (tracked m l) (mon_io m)")
  from assms rs obtain st where st: "r = Some st" "is_filled st = Some True" "l \<noteq> ENTRY"
    and ex: "on_exit_fill B True sd l (if l = STOP then TP1 else STOP) (m\<lparr>mon_io := s1\<rparr>)
               = (Returned w, m')"
    by (auto simp: visit_main_def split: option.splits if_splits)
  from st(3) have l: "l = TP1 \<or> l = STOP" by (cases l) auto
  then have ol: "(if l = STOP then TP1 else STOP) = other_leg l" by (auto simp: other_leg_def)
  from rs st(1) have e1: "events s1 = events (mon_io m) @ [Sent (Order_item (tracked m l)), Observed l st]"
    by (auto simp: read_status_def send_def observe_def
        split: prod.splits reply.splits body.splits if_splits)
  from ex obtain dir where dir: "trade_direction sd = Some dir" "w = l"
    and m': "m' = cancel_other B True (other_leg l)
                 (m\<lparr>mon_io := write_log (Trade_completed dir) s1\<rparr>)"
    unfolding ol by (auto simp: on_exit_fill_def split: option.splits)
  from cancel_other_events [of B True "other_leg l" "m\<lparr>mon_io := write_log (Trade_completed dir) s1\<rparr>"]
  obtain logs where
    c: "events (mon_io m') = events (write_log (Trade_completed dir) s1)
         @ (if truthy (tracked m (other_leg l))
            then [Sent (Order_cancel (tracked m (other_leg l)))] else [])
         @ logs"
      "requests logs = []" "tracked m' = tracked m"
    unfolding m' by auto
  have "events (mon_io m') = events (mon_io m)
      @ exit_tail (tracked m) w st [Logged (Trade_completed dir)] @ logs"
    using c(1) e1 dir(2) by (simp add: exit_tail_def write_log_def)
  with st(2) c(2,3) dir(2) l show ?thesis by blast
qed

lemma read_status_grows: "read_status B l i s = (r, s1) \<Longrightarrow> grows s s1"
  using read_status_events [of B l i s r s1] by (auto simp: grows_def)

lemma on_entry_fill_grows: "grows (mon_io m) (mon_io (on_entry_fill B c sd tif m))"
  by (auto simp: on_entry_fill_def grows_def send_def write_log_def
      split: option.splits prod.splits reply.splits body.splits)

lemma on_exit_fill_grows:
  assumes "on_exit_fill B warn sd w other m = (r, m')"
  shows "grows (mon_io m) (mon_io m')"
proof (cases "trade_direction sd")
  case None
  with assms show ?thesis by (simp add: on_exit_fill_def)
next
  case (Some dir)
  let ?m1 = "m\<lparr>mon_io := write_log (Trade_completed dir) (mon_io m)\<rparr>"
  from assms Some have m': "m' = cancel_other B warn other ?m1"
    by (simp add: on_exit_fill_def)
  from cancel_other_events [of B warn other ?m1] obtain xs where
    "events (mon_io m') = events (mon_io ?m1) @ xs"
    unfolding m' by (metis append.assoc)
  then have "events (mon_io m') = events (mon_io m) @ (Logged (Trade_completed dir) # xs)"
    by (simp add: write_log_def)
  then show ?thesis unfolding grows_def by blast
qed

lemma visit_main_grows:
  assumes "visit_main B c sd l m = (r, m')"
  shows "grows (mon_io m) (mon_io m')"
proof -
  obtain st s1 where rs: "read_status B l (tracked m l) (mon_io m) = (st, s1)"
    by (cases "read_status B l (tracked m l) (mon_io m)")
  then have g1: "grows (mon_io m) s1" by (rule read_status_grows)
  have "mon_io m' = s1
      \<or> m' = on_entry_fill B c sd False (m\<lparr>mon_io := s1\<rparr>)
      \<or> on_exit_fill B True sd l (if l = STOP then TP1 else STOP) (m\<lparr>mon_io := s1\<rparr>) = (r, m')"
    using assms rs
    by (auto simp: visit_main_def note_active_def split: option.splits if_splits)
  then have "grows s1 (mon_io m')"
    using on_entry_fill_grows [of "m\<lparr>mon_io := s1\<rparr>" B c sd False]
      on_exit_fill_grows [of B True sd l "if l = STOP then TP1 else STOP" "m\<lparr>mon_io := s1\<rparr>" r m']
    by auto
  with g1 show ?thesis by (rule grows_trans)
qed

lemma poll_main_grows:
  "poll_main B c sd ls m = (r, m') \<Longrightarrow> grows (mon_io m) (mon_io m')"
proof (induction ls arbitrary: m)
  case Nil
  then show ?case by simp
next
  case (Cons l ls)
  show ?case
  proof (cases "tracked m l = JNull")
    case True
    with Cons show ?thesis by simp
  next
    case False
    obtain r2 m2 where v: "visit_main B c sd l m = (r2, m2)"
      by (cases "visit_main B c sd l m")
    from visit_main_grows [OF v] have g: "grows (mon_io m) (mon_io m2)" .
    show ?thesis
    proof (cases "r2 = Completed")
      case True
      with Cons.prems False v have "poll_main B c sd ls m2 = (r, m')" by simp
      from Cons.IH [OF this] g show ?thesis by (blast intro: grows_trans)
    next
      case False
      with Cons.prems \<open>tracked m l \<noteq> JNull\<close> v have "m' = m2"
        by (cases r2) simp_all
      with g show ?thesis by simp
    qed
  qed
qed




lemma poll_main_returned:
  "poll_main B c sd ls m = (Returned w, m') \<Longrightarrow>
     (w = TP1 \<or> w = STOP)
     \<and> (\<exists>mid st dir logs. is_filled st = Some True \<and> requests logs = []
          \<and> events (mon_io m')
               = events (mon_io m) @ mid
                 @ exit_tail (tracked m') w st [Logged (Trade_completed dir)] @ logs)"
proof (induction ls arbitrary: m)
  case Nil
  then show ?case by simp
next
  case (Cons l ls)
  show ?case
  proof (cases "tracked m l = JNull")
    case True
    with Cons show ?thesis by simp
  next
    case False
    obtain r2 m2 where v: "visit_main B c sd l m = (r2, m2)"
      by (cases "visit_main B c sd l m")
    show ?thesis
    proof (cases r2)
      case Completed
      with Cons.prems False v have "poll_main B c sd ls m2 = (Returned w, m')" by simp
      from Cons.IH [OF this] obtain mid st dir logs where
        a: "w = TP1 \<or> w = STOP" "is_filled st = Some True" "requests logs = []"
           "events (mon_io m') = events (mon_io m2) @ mid
              @ exit_tail (tracked m') w st [Logged (Trade_completed dir)] @ logs"
        by blast
      from visit_main_grows [OF v] obtain evs where
        "events (mon_io m2) = events (mon_io m) @ evs" by (auto simp: grows_def)
      with a(4) have "events (mon_io m') = events (mon_io m) @ (evs @ mid)
              @ exit_tail (tracked m') w st [Logged (Trade_completed dir)] @ logs"
        by simp
      with a(1,2,3) show ?thesis by blast
    next
      case (Returned w2)
      with Cons.prems False v have "w2 = w" "m2 = m'" by simp_all
      with v Returned have "visit_main B c sd l m = (Returned w, m')" by simp
      from visit_main_returned [OF this] obtain st dir logs where
        a: "w = TP1 \<or> w = STOP" "is_filled st = Some True" "requests logs = []"
           "events (mon_io m') = events (mon_io m) @ []
              @ exit_tail (tracked m') w st [Logged (Trade_completed dir)] @ logs"
        by auto
      then show ?thesis by blast
    next
      case Excepted
      with Cons.prems False v show ?thesis by simp
    qed
  qed
qed

lemma monitor_main_done:
  "monitor_main n B c sd t0 m = Finished (Done w) m' \<Longrightarrow>
     (w = TP1 \<or> w = STOP)
     \<and> (\<exists>mid st dir logs. is_filled st = Some True \<and> requests logs = []
          \<and> events (mon_io m')
               = events (mon_io m) @ mid
                 @ exit_tail (tracked m') w st [Logged (Trade_completed dir)] @ logs)"
proof (induction n arbitrary: m)
  case 0
  then show ?case by simp
next
  case (Suc n)
  obtain r m1 where p: "poll_main B c sd [ENTRY, TP1, STOP] (m\<lparr>active_orders := []\<rparr>) = (r, m1)"
    by (cases "poll_main B c sd [ENTRY, TP1, STOP] (m\<lparr>active_orders := []\<rparr>)")
  from poll_main_grows [OF p] obtain evs where
    evs: "events (mon_io m1) = events (mon_io m) @ evs" by (auto simp: grows_def)
  have next_round: "(w = TP1 \<or> w = STOP)
     \<and> (\<exists>mid st dir logs. is_filled st = Some True \<and> requests logs = []
          \<and> events (mon_io m')
               = events (mon_io m) @ mid
                 @ exit_tail (tracked m') w st [Logged (Trade_completed dir)] @ logs)"
    if run: "monitor_main n B c sd t0 (m1\<lparr>mon_io := s2\<rparr>) = Finished (Done w) m'"
      and s2: "events s2 = events (mon_io m1) @ ys" for s2 ys
  proof -
    from Suc.IH [OF run] obtain mid st dir logs where
      a: "w = TP1 \<or> w = STOP" "is_filled st = Some True" "requests logs = []"
         "events (mon_io m') = events s2 @ mid
            @ exit_tail (tracked m') w st [Logged (Trade_completed dir)] @ logs"
      by auto
    from a(4) s2 evs have "events (mon_io m') = events (mon_io m) @ (evs @ ys @ mid)
            @ exit_tail (tracked m') w st [Logged (Trade_completed dir)] @ logs"
      by simp
    with a(1,2,3) show ?thesis by blast
  qed
  show ?case
  proof (cases r)
    case (Returned w2)
    with Suc.prems p have "w2 = w" "m1 = m'" by simp_all
    with p Returned have
      "poll_main B c sd [ENTRY, TP1, STOP] (m\<lparr>active_orders := []\<rparr>) = (Returned w, m')"
      by simp
    from poll_main_returned [OF this] show ?thesis by simp
  next
    case Excepted
    with Suc.prems p have "monitor_main n B c sd t0
        (m1\<lparr>mon_io := sleep_ms 2000 (write_log Monitor_error (mon_io m1))\<rparr>)
          = Finished (Done w) m'"
      by simp
    then show ?thesis
      by (rule next_round [where ys = "[Logged Monitor_error, Slept 2000]"])
        (simp add: sleep_ms_def write_log_def)
  next
    case Completed
    with Suc.prems p have "monitor_main n B c sd t0
        (m1\<lparr>mon_io := sleep_ms (if entry_filled m1 then 1000 else 500) (mon_io m1)\<rparr>)
          = Finished (Done w) m'"
      by (simp split: if_splits)
    then show ?thesis
      by (rule next_round
          [where ys = "[Slept (if entry_filled m1 then 1000 else 500)]"])
        (simp add: sleep_ms_def)
  qed
qed


text \<open>A bracket whose take-profit and entry were placed with ids 0 and 1, on the broker
  that reports every order as filled.\<close>

definition placed :: tracking where
  "placed = (untracked(TP1 := JInt 0))(ENTRY := JInt 1)"







end
